theory Spec2Isabelle
  imports Complex_Main "HOL-Library.Log_Nat"
begin

section \<open>Data model of \<open>lp_data/HighsLp.cpp\<close>\<close>

text \<open>
  \<open>HighsInt\<close> is modelled as \<open>int\<close> (no claim below depends on wrap-around). The
  type of the numeric values is the parameter \<open>'v\<close> of the structs: the functions that
  do arithmetic on them, \<open>applyScale\<close> and \<open>unapplyScale\<close>, are written once, with
  the \<open>*\<close> and \<open>/\<close> of the value type, and are read at \<open>rat\<close> for exact
  arithmetic and at \<open>double\<close> (IEEE 754 binary64, defined below) for the arithmetic of
  the program. The functions that only copy or compare values are stated at \<open>rat\<close>.
  A failed \<open>assert\<close>, an out-of-range \<open>operator[]\<close> and a \<open>resize\<close> to a negative
  count are values of \<open>error\<close>; every function that can reach one returns \<open>error + 'a\<close>.
  The trailing underscore of the member names is dropped (\<open>num_col_\<close> is \<open>num_col\<close>),
  and the members of \<open>HighsScale\<close> that would clash with other names carry the prefix
  \<open>scale_\<close>. The structs are declared in headers; their members and types here are
  the ones the source file reads and writes.
\<close>

datatype error = AssertionFailure | OutOfRange | LengthError

text \<open>
  Modelled from the spec: the enumerations \<open>HighsVarType\<close>, \<open>ObjSense\<close> and
  \<open>MatrixFormat\<close> are declared in headers that are not part of the source at
  hand; the constructors are the ones the source file and the data model name.
\<close>

datatype HighsVarType = kContinuous | kInteger | kSemiContinuous | kSemiInteger

datatype ObjSense = kMinimize | kMaximize

datatype MatrixFormat = kColwise | kRowwise

record 'v HighsScale =
  strategy :: int
  has_scaling :: bool
  scale_num_col :: int
  scale_num_row :: int
  scale_cost :: "'v"
  scale_col :: "'v list"
  scale_row :: "'v list"

text \<open>
  Modelled from the spec: the sparse matrix class \<open>HighsSparseMatrix\<close> is not part of
  the source at hand. It is a storage format, its own dimensions, and the nonzero
  entries as (row, column, value) triples.
\<close>

record 'v HighsSparseMatrix =
  format :: MatrixFormat
  matrix_num_col :: int
  matrix_num_row :: int
  entries :: "(int \<times> int \<times> 'v) list"

record 'v HighsLpMods =
  save_non_semi_variable_index :: "int list"
  save_inconsistent_semi_variable_index :: "int list"
  save_inconsistent_semi_variable_lower_bound_value :: "'v list"
  save_inconsistent_semi_variable_upper_bound_value :: "'v list"
  save_inconsistent_semi_variable_type :: "HighsVarType list"
  save_relaxed_semi_variable_lower_bound_index :: "int list"
  save_relaxed_semi_variable_lower_bound_value :: "'v list"
  save_tightened_semi_variable_upper_bound_index :: "int list"
  save_tightened_semi_variable_upper_bound_value :: "'v list"

record HighsNameHash =
  name2index :: "string \<rightharpoonup> int"

record 'v HighsLp =
  num_col :: int
  num_row :: int
  col_cost :: "'v list"
  col_lower :: "'v list"
  col_upper :: "'v list"
  row_lower :: "'v list"
  row_upper :: "'v list"
  a_matrix :: "'v HighsSparseMatrix"
  sense :: ObjSense
  offset :: "'v"
  model_name :: string
  objective_name :: string
  new_col_name_ix :: int
  new_row_name_ix :: int
  col_names :: "string list"
  row_names :: "string list"
  integrality :: "HighsVarType list"
  col_hash :: HighsNameHash
  row_hash :: HighsNameHash
  scale :: "'v HighsScale"
  is_scaled :: bool
  is_moved :: bool
  cost_row_location :: int
  mods :: "'v HighsLpMods"

subsection \<open>Vectors\<close>

text \<open>\<open>v[i]\<close> as a read and as a write; outside \<open>0 \<le> i < v.size()\<close> both are an error.\<close>

definition vec_get :: "'a list \<Rightarrow> int \<Rightarrow> error + 'a" where
  "vec_get xs i = (if 0 \<le> i \<and> i < int (length xs) then Inr (xs ! nat i) else Inl OutOfRange)"

definition vec_set :: "'a list \<Rightarrow> int \<Rightarrow> 'a \<Rightarrow> error + 'a list" where
  "vec_set xs i v = (if 0 \<le> i \<and> i < int (length xs) then Inr (xs[nat i := v]) else Inl OutOfRange)"

text \<open>\<open>v.resize(n)\<close> with value-initialised new elements \<open>d\<close>.\<close>

definition vec_resize :: "'a \<Rightarrow> int \<Rightarrow> 'a list \<Rightarrow> error + 'a list" where
  "vec_resize d n xs =
     (if n < 0 then Inl LengthError
      else Inr (take (nat n) xs @ replicate (nat n - length xs) d))"

definition bindE :: "error + 'a \<Rightarrow> ('a \<Rightarrow> error + 'b) \<Rightarrow> error + 'b" where
  "bindE r f = (case r of Inl e \<Rightarrow> Inl e | Inr x \<Rightarrow> f x)"

text \<open>\<open>for (HighsInt i = i0; i < n; i++) body\<close>, for a body without \<open>break\<close> or \<open>return\<close>.\<close>

function for_loop :: "int \<Rightarrow> int \<Rightarrow> (int \<Rightarrow> 's \<Rightarrow> error + 's) \<Rightarrow> 's \<Rightarrow> error + 's" where
  "for_loop i n body s =
     (if i < n then
        (case body i s of Inl e \<Rightarrow> Inl e | Inr s' \<Rightarrow> for_loop (i + 1) n body s')
      else Inr s)"
  by pat_completeness auto
termination
  by (relation "measure (\<lambda>(i, n, body, s). nat (n - i))") auto

declare for_loop.simps [simp del]

section \<open>\<open>HighsLp::isMip\<close> and \<open>HighsLp::hasSemiVariables\<close>\<close>

function isMip_loop :: "rat HighsLp \<Rightarrow> int \<Rightarrow> error + bool" where
  "isMip_loop lp iCol =
     (if iCol < num_col lp then
        (case vec_get (integrality lp) iCol of
           Inl e \<Rightarrow> Inl e
         | Inr t \<Rightarrow> if t \<noteq> kContinuous then Inr True else isMip_loop lp (iCol + 1))
      else Inr False)"
  by pat_completeness auto
termination
  by (relation "measure (\<lambda>(lp, iCol). nat (num_col lp - iCol))") auto

declare isMip_loop.simps [simp del]

definition isMip :: "rat HighsLp \<Rightarrow> error + bool" where
  "isMip lp =
     (let integrality_size = int (length (integrality lp)) in
      if integrality_size \<noteq> 0 then
        (if integrality_size \<noteq> num_col lp then Inl AssertionFailure
         else isMip_loop lp 0)
      else Inr False)"

function hasSemiVariables_loop :: "rat HighsLp \<Rightarrow> int \<Rightarrow> error + bool" where
  "hasSemiVariables_loop lp iCol =
     (if iCol < num_col lp then
        (case vec_get (integrality lp) iCol of
           Inl e \<Rightarrow> Inl e
         | Inr t \<Rightarrow>
             if t = kSemiContinuous \<or> t = kSemiInteger then Inr True
             else hasSemiVariables_loop lp (iCol + 1))
      else Inr False)"
  by pat_completeness auto
termination
  by (relation "measure (\<lambda>(lp, iCol). nat (num_col lp - iCol))") auto

declare hasSemiVariables_loop.simps [simp del]

definition hasSemiVariables :: "rat HighsLp \<Rightarrow> error + bool" where
  "hasSemiVariables lp =
     (let integrality_size = int (length (integrality lp)) in
      if integrality_size \<noteq> 0 then
        (if integrality_size \<noteq> num_col lp then Inl AssertionFailure
         else hasSemiVariables_loop lp 0)
      else Inr False)"

section \<open>\<open>HighsLp::equalButForNames\<close>, \<open>equalNames\<close> and \<open>operator==\<close>\<close>

text \<open>
  Each line of the source is one \<open>let\<close>; the comparison of two vectors, strings or
  matrices is HOL equality.
\<close>

definition equalNames :: "rat HighsLp \<Rightarrow> rat HighsLp \<Rightarrow> bool" where
  "equalNames this lp =
     (let equal = True;
          equal = (objective_name this = objective_name lp \<and> equal);
          equal = (row_names this = row_names lp \<and> equal);
          equal = (col_names this = col_names lp \<and> equal)
      in equal)"

definition equalButForNames :: "rat HighsLp \<Rightarrow> rat HighsLp \<Rightarrow> bool" where
  "equalButForNames this lp =
     (let equal = True;
          equal = (num_col this = num_col lp \<and> equal);
          equal = (num_row this = num_row lp \<and> equal);
          equal = (sense this = sense lp \<and> equal);
          equal = (offset this = offset lp \<and> equal);
          equal = (model_name this = model_name lp \<and> equal);
          equal = (col_cost this = col_cost lp \<and> equal);
          equal = (col_upper this = col_upper lp \<and> equal);
          equal = (col_lower this = col_lower lp \<and> equal);
          equal = (row_upper this = row_upper lp \<and> equal);
          equal = (row_lower this = row_lower lp \<and> equal);
          equal = (a_matrix this = a_matrix lp);
          equal = (strategy (scale this) = strategy (scale lp) \<and> equal);
          equal = (has_scaling (scale this) = has_scaling (scale lp) \<and> equal);
          equal = (scale_num_col (scale this) = scale_num_col (scale lp) \<and> equal);
          equal = (scale_num_row (scale this) = scale_num_row (scale lp) \<and> equal);
          equal = (scale_cost (scale this) = scale_cost (scale lp) \<and> equal);
          equal = (scale_col (scale this) = scale_col (scale lp) \<and> equal);
          equal = (scale_row (scale this) = scale_row (scale lp) \<and> equal)
      in equal)"

definition lp_equal :: "rat HighsLp \<Rightarrow> rat HighsLp \<Rightarrow> bool" where
  "lp_equal this lp =
     (let equal = equalButForNames this lp;
          equal = (equalNames this lp \<and> equal)
      in equal)"

section \<open>\<open>HighsLpMods::clear\<close> and \<open>HighsLpMods::isClear\<close>\<close>

definition mods_clear :: "rat HighsLpMods \<Rightarrow> rat HighsLpMods" where
  "mods_clear m = m
     \<lparr> save_non_semi_variable_index := [],
       save_inconsistent_semi_variable_index := [],
       save_inconsistent_semi_variable_lower_bound_value := [],
       save_inconsistent_semi_variable_upper_bound_value := [],
       save_inconsistent_semi_variable_type := [],
       save_relaxed_semi_variable_lower_bound_index := [],
       save_relaxed_semi_variable_lower_bound_value := [],
       save_tightened_semi_variable_upper_bound_index := [],
       save_tightened_semi_variable_upper_bound_value := [] \<rparr>"

definition isClear :: "rat HighsLpMods \<Rightarrow> bool" where
  "isClear m =
     (if length (save_non_semi_variable_index m) \<noteq> 0 then False
      else if length (save_inconsistent_semi_variable_index m) \<noteq> 0 then False
      else if length (save_inconsistent_semi_variable_lower_bound_value m) \<noteq> 0 then False
      else if length (save_inconsistent_semi_variable_upper_bound_value m) \<noteq> 0 then False
      else if length (save_inconsistent_semi_variable_type m) \<noteq> 0 then False
      else if length (save_relaxed_semi_variable_lower_bound_value m) \<noteq> 0 then False
      else if length (save_relaxed_semi_variable_lower_bound_value m) \<noteq> 0 then False
      else if length (save_tightened_semi_variable_upper_bound_index m) \<noteq> 0 then False
      else if length (save_tightened_semi_variable_upper_bound_value m) \<noteq> 0 then False
      else True)"

text \<open>The property the journal is meant to report: every one of its nine sequences is empty.\<close>

definition all_logs_empty :: "rat HighsLpMods \<Rightarrow> bool" where
  "all_logs_empty m \<longleftrightarrow>
     length (save_non_semi_variable_index m) = 0 \<and>
     length (save_inconsistent_semi_variable_index m) = 0 \<and>
     length (save_inconsistent_semi_variable_lower_bound_value m) = 0 \<and>
     length (save_inconsistent_semi_variable_upper_bound_value m) = 0 \<and>
     length (save_inconsistent_semi_variable_type m) = 0 \<and>
     length (save_relaxed_semi_variable_lower_bound_index m) = 0 \<and>
     length (save_relaxed_semi_variable_lower_bound_value m) = 0 \<and>
     length (save_tightened_semi_variable_upper_bound_index m) = 0 \<and>
     length (save_tightened_semi_variable_upper_bound_value m) = 0"

section \<open>\<open>HighsNameHash\<close>\<close>

text \<open>
  \<open>name2index\<close> is a \<open>std::unordered_map<std::string, int>\<close>: a finite partial map.
  \<open>emplace(k, v)\<close> inserts only when \<open>k\<close> is absent and reports whether it inserted.
  The constant \<open>kHashIsDuplicate\<close> is declared in a header that is not part of the
  source at hand; it is a parameter of \<open>form\<close>.
\<close>

definition hash_clear :: "HighsNameHash \<Rightarrow> HighsNameHash" where
  "hash_clear h = h\<lparr>name2index := Map.empty\<rparr>"

definition hash_size :: "HighsNameHash \<Rightarrow> int" where
  "hash_size h = int (card (dom (name2index h)))"

definition emplace :: "HighsNameHash \<Rightarrow> string \<Rightarrow> int \<Rightarrow> HighsNameHash \<times> bool" where
  "emplace h k v =
     (if name2index h k = None then (h\<lparr>name2index := (name2index h)(k \<mapsto> v)\<rparr>, True)
      else (h, False))"

definition form_body :: "int \<Rightarrow> string list \<Rightarrow> int \<Rightarrow> HighsNameHash \<Rightarrow> error + HighsNameHash" where
  "form_body kHashIsDuplicate name index h =
     bindE (vec_get name index) (\<lambda>key.
       let (h, inserted) = emplace h key index;
           duplicate = (\<not> inserted)
       in if duplicate then
            (case name2index h key of
               None \<Rightarrow> Inl AssertionFailure
             | Some second \<Rightarrow>
                 if \<not> second < hash_size h then Inl AssertionFailure
                 else
                   let h = h\<lparr>name2index := (name2index h)(key := None)\<rparr>;
                       h = h\<lparr>name2index := (name2index h)(key \<mapsto> kHashIsDuplicate)\<rparr>
                   in Inr h)
          else Inr h)"

definition form :: "int \<Rightarrow> HighsNameHash \<Rightarrow> string list \<Rightarrow> error + HighsNameHash" where
  "form kHashIsDuplicate h name =
     (let num_name = int (length name);
          h = hash_clear h
      in for_loop 0 num_name (form_body kHashIsDuplicate name) h)"

text \<open>The loop of \<open>hasDuplicate\<close> leaves by \<open>break\<close> at the first failed \<open>emplace\<close>.\<close>

function hasDuplicate_loop ::
  "string list \<Rightarrow> int \<Rightarrow> int \<Rightarrow> bool \<Rightarrow> HighsNameHash \<Rightarrow> error + (bool \<times> HighsNameHash)" where
  "hasDuplicate_loop name num_name index has_duplicate h =
     (if index < num_name then
        (case vec_get name index of
           Inl e \<Rightarrow> Inl e
         | Inr key \<Rightarrow>
             (case emplace h key index of
                (h', inserted) \<Rightarrow>
                  if \<not> inserted then Inr (True, h')
                  else hasDuplicate_loop name num_name (index + 1) False h'))
      else Inr (has_duplicate, h))"
  by pat_completeness auto
termination
  by (relation "measure (\<lambda>(name, num_name, index, d, h). nat (num_name - index))") auto

declare hasDuplicate_loop.simps [simp del]

definition hasDuplicate :: "HighsNameHash \<Rightarrow> string list \<Rightarrow> error + (bool \<times> HighsNameHash)" where
  "hasDuplicate h name =
     (let num_name = int (length name);
          h = hash_clear h;
          has_duplicate = False
      in bindE (hasDuplicate_loop name num_name 0 has_duplicate h) (\<lambda>(has_duplicate, h).
           let h = hash_clear h in Inr (has_duplicate, h)))"

text \<open>
  What the mapping is meant to hold once the first \<open>k\<close> names are read: nothing for a
  name not among them, the index for a name among them once, and the sentinel for a name
  among them twice or more. It is the invariant of the loop of \<open>form\<close>.
\<close>

definition mapping_of_prefix :: "int \<Rightarrow> string list \<Rightarrow> nat \<Rightarrow> (string \<rightharpoonup> int) \<Rightarrow> bool" where
  "mapping_of_prefix kHashIsDuplicate name k m \<longleftrightarrow>
     (\<forall>key.
        ((\<forall>i<k. name ! i \<noteq> key) \<longrightarrow> m key = None) \<and>
        (\<forall>i<k. name ! i = key \<longrightarrow> (\<forall>j<k. name ! j = key \<longrightarrow> j = i) \<longrightarrow> m key = Some (int i)) \<and>
        (\<forall>i j. i < j \<longrightarrow> j < k \<longrightarrow> name ! i = key \<longrightarrow> name ! j = key \<longrightarrow>
           m key = Some kHashIsDuplicate))"

section \<open>Scaling\<close>

text \<open>
  \<open>x[i] op= factors[i]\<close> for \<open>op\<close> one of \<open>*\<close> and \<open>/\<close>, in the arithmetic of the
  value type.
\<close>

definition compound_assign ::
  "('v \<Rightarrow> 'v \<Rightarrow> 'v) \<Rightarrow> 'v list \<Rightarrow> 'v list \<Rightarrow> int \<Rightarrow> error + 'v list" where
  "compound_assign f xs factors i =
     bindE (vec_get factors i) (\<lambda>c.
     bindE (vec_get xs i) (\<lambda>x. vec_set xs i (f x c)))"

text \<open>
  Modelled from the spec: \<open>HighsSparseMatrix::applyScale\<close> and \<open>unapplyScale\<close> are not part
  of the source at hand. The matrix component multiplies the entry in row \<open>i\<close> and column
  \<open>j\<close> by \<open>1 / colFactor[j]\<close> and \<open>rowFactor[i]\<close>; the inverse divides by the same factors.
\<close>

fun scale_entries ::
  "(('v::{one,times,inverse}) \<Rightarrow> 'v \<Rightarrow> 'v) \<Rightarrow> 'v HighsScale \<Rightarrow> (int \<times> int \<times> 'v) list \<Rightarrow> error + (int \<times> int \<times> 'v) list" where
  "scale_entries f sc [] = Inr []"
| "scale_entries f sc ((i, j, v) # es) =
     bindE (vec_get (scale_col sc) j) (\<lambda>c.
     bindE (vec_get (scale_row sc) i) (\<lambda>r.
     bindE (scale_entries f sc es) (\<lambda>es'. Inr ((i, j, f v ((1 / c) * r)) # es'))))"

definition matrix_applyScale :: "('v::{one,times,inverse}) HighsSparseMatrix \<Rightarrow> 'v HighsScale \<Rightarrow> error + 'v HighsSparseMatrix" where
  "matrix_applyScale m sc =
     bindE (scale_entries (*) sc (entries m)) (\<lambda>es. Inr (m\<lparr>entries := es\<rparr>))"


definition applyScale_col :: "int \<Rightarrow> ('v::{times,inverse}) HighsLp \<Rightarrow> error + 'v HighsLp" where
  "applyScale_col iCol lp =
     bindE (compound_assign (/) (col_lower lp) (scale_col (scale lp)) iCol) (\<lambda>v.
     let lp = lp\<lparr>col_lower := v\<rparr> in
     bindE (compound_assign (/) (col_upper lp) (scale_col (scale lp)) iCol) (\<lambda>v.
     let lp = lp\<lparr>col_upper := v\<rparr> in
     bindE (compound_assign (*) (col_cost lp) (scale_col (scale lp)) iCol) (\<lambda>v.
     Inr (lp\<lparr>col_cost := v\<rparr>))))"

definition applyScale_row :: "int \<Rightarrow> ('v::times) HighsLp \<Rightarrow> error + 'v HighsLp" where
  "applyScale_row iRow lp =
     bindE (compound_assign (*) (row_lower lp) (scale_row (scale lp)) iRow) (\<lambda>v.
     let lp = lp\<lparr>row_lower := v\<rparr> in
     bindE (compound_assign (*) (row_upper lp) (scale_row (scale lp)) iRow) (\<lambda>v.
     Inr (lp\<lparr>row_upper := v\<rparr>)))"

definition applyScale :: "('v::{one,times,inverse}) HighsLp \<Rightarrow> error + 'v HighsLp" where
  "applyScale lp =
     (if is_scaled lp then
        (if has_scaling (scale lp) then Inr lp else Inl AssertionFailure)
      else
        let lp = lp\<lparr>is_scaled := False\<rparr> in
        if has_scaling (scale lp) then
          bindE (for_loop 0 (num_col lp) applyScale_col lp) (\<lambda>lp.
          bindE (for_loop 0 (num_row lp) applyScale_row lp) (\<lambda>lp.
          bindE (matrix_applyScale (a_matrix lp) (scale lp)) (\<lambda>m.
          let lp = lp\<lparr>a_matrix := m\<rparr> in
          Inr (lp\<lparr>is_scaled := True\<rparr>))))
        else Inr lp)"




section \<open>\<open>HighsLp::exactResize\<close>\<close>

text \<open>
  \<open>HighsSparseMatrix::exactResize\<close> is not part of the source at hand; it is the
  parameter \<open>matrix_exactResize\<close>. New entries of a resized vector are value-initialised:
  \<open>0\<close>, the empty string, and the first enumerator \<open>kContinuous\<close>.
\<close>

definition exactResize ::
  "(rat HighsSparseMatrix \<Rightarrow> error + rat HighsSparseMatrix) \<Rightarrow> rat HighsLp \<Rightarrow> error + rat HighsLp" where
  "exactResize matrix_exactResize lp =
     bindE (vec_resize 0 (num_col lp) (col_cost lp)) (\<lambda>v.
     let lp = lp\<lparr>col_cost := v\<rparr> in
     bindE (vec_resize 0 (num_col lp) (col_lower lp)) (\<lambda>v.
     let lp = lp\<lparr>col_lower := v\<rparr> in
     bindE (vec_resize 0 (num_col lp) (col_upper lp)) (\<lambda>v.
     let lp = lp\<lparr>col_upper := v\<rparr> in
     bindE (vec_resize 0 (num_row lp) (row_lower lp)) (\<lambda>v.
     let lp = lp\<lparr>row_lower := v\<rparr> in
     bindE (vec_resize 0 (num_row lp) (row_upper lp)) (\<lambda>v.
     let lp = lp\<lparr>row_upper := v\<rparr> in
     bindE (matrix_exactResize (a_matrix lp)) (\<lambda>m.
     let lp = lp\<lparr>a_matrix := m\<rparr> in
     bindE (if int (length (col_names lp)) \<noteq> 0
            then vec_resize [] (num_col lp) (col_names lp) else Inr (col_names lp)) (\<lambda>v.
     let lp = lp\<lparr>col_names := v\<rparr> in
     bindE (if int (length (row_names lp)) \<noteq> 0
            then vec_resize [] (num_row lp) (row_names lp) else Inr (row_names lp)) (\<lambda>v.
     let lp = lp\<lparr>row_names := v\<rparr> in
     bindE (if int (length (integrality lp)) \<noteq> 0
            then vec_resize kContinuous (num_col lp) (integrality lp)
            else Inr (integrality lp)) (\<lambda>v.
     Inr (lp\<lparr>integrality := v\<rparr>))))))))))"

section \<open>\<open>HighsLp::addColNames\<close>\<close>

text \<open>\<open>std::to_string\<close> on an integer: its decimal digits, after a minus sign when negative.\<close>

function to_string_nat :: "nat \<Rightarrow> string" where
  "to_string_nat n =
     (if n < 10 then [''0123456789'' ! n]
      else to_string_nat (n div 10) @ [''0123456789'' ! (n mod 10)])"
  by pat_completeness auto
termination
  by (relation "measure (\<lambda>n. n)") auto

declare to_string_nat.simps [simp del]

definition to_string :: "int \<Rightarrow> string" where
  "to_string i = (if i < 0 then CHR ''-'' # to_string_nat (nat (- i)) else to_string_nat (nat i))"

text \<open>
  One pass of the loop body is split in two: \<open>addColNames_write\<close> is the search of the
  hash and the write of the name, returning the flag \<open>added\<close>; \<open>addColNames_record\<close> is
  the branch taken when \<open>added\<close> holds, with its three assertions.
\<close>

definition addColNames_write :: "int \<Rightarrow> int \<Rightarrow> string \<Rightarrow> rat HighsLp \<Rightarrow> error + (rat HighsLp \<times> bool)" where
  "addColNames_write col_names_size iCol col_name lp =
     (let added = False in
      if name2index (col_hash lp) col_name = None then
        (if col_names_size = num_col lp then
           Inr (lp\<lparr>col_names := col_names lp @ [col_name]\<rparr>, True)
         else if col_names_size > iCol then
           bindE (vec_get (col_names lp) iCol) (\<lambda>s.
             if s = [] then
               bindE (vec_set (col_names lp) iCol col_name) (\<lambda>v. Inr (lp\<lparr>col_names := v\<rparr>, True))
             else Inr (lp, added))
         else Inr (lp, added))
      else Inr (lp, added))"

definition addColNames_record :: "int \<Rightarrow> string \<Rightarrow> rat HighsLp \<Rightarrow> error + rat HighsLp" where
  "addColNames_record iCol col_name lp =
     (let (h, inserted) = emplace (col_hash lp) col_name iCol;
          lp = lp\<lparr>col_hash := h\<rparr>;
          duplicate = (\<not> inserted)
      in if duplicate then Inl AssertionFailure
         else
           bindE (vec_get (col_names lp) iCol) (\<lambda>s.
             if s \<noteq> col_name then Inl AssertionFailure
             else
               (case name2index (col_hash lp) col_name of
                  None \<Rightarrow> Inl AssertionFailure
                | Some second \<Rightarrow> if second \<noteq> iCol then Inl AssertionFailure else Inr lp)))"

function addColNames_loop :: "int \<Rightarrow> int \<Rightarrow> int \<Rightarrow> rat HighsLp \<Rightarrow> error + rat HighsLp" where
  "addColNames_loop col_names_size num_new_col iCol lp =
     (if iCol < num_col lp + num_new_col then
        (case addColNames_write col_names_size iCol
                (''col_ekk_'' @ to_string (new_col_name_ix lp))
                (lp\<lparr>new_col_name_ix := new_col_name_ix lp + 1\<rparr>) of
           Inl e \<Rightarrow> Inl e
         | Inr (lp', added) \<Rightarrow>
             if added then
               (case addColNames_record iCol (''col_ekk_'' @ to_string (new_col_name_ix lp)) lp' of
                  Inl e \<Rightarrow> Inl e
                | Inr lp'' \<Rightarrow> addColNames_loop col_names_size num_new_col (iCol + 1) lp'')
             else Inr (lp'\<lparr>col_hash := hash_clear (col_hash lp')\<rparr>))
      else Inr lp)"
  by pat_completeness auto
termination
  by (relation "measure (\<lambda>(s, n, iCol, lp). nat (num_col lp + n - iCol))")
     (auto simp: addColNames_write_def addColNames_record_def bindE_def vec_get_def vec_set_def
                 emplace_def Let_def
           split: if_splits option.splits sum.splits prod.splits)

declare addColNames_loop.simps [simp del]

definition addColNames :: "int \<Rightarrow> rat HighsLp \<Rightarrow> string \<Rightarrow> int \<Rightarrow> error + rat HighsLp" where
  "addColNames kHashIsDuplicate lp name num_new_col =
     (if num_col lp = 0 then Inr lp
      else
        let col_names_size = int (length (col_names lp)) in
        if col_names_size < num_col lp then Inr lp
        else
          bindE (if hash_size (col_hash lp) = 0
                 then bindE (form kHashIsDuplicate (col_hash lp) (col_names lp))
                        (\<lambda>h. Inr (lp\<lparr>col_hash := h\<rparr>))
                 else Inr lp) (\<lambda>lp.
          if name \<noteq> [] then Inl AssertionFailure
          else addColNames_loop col_names_size num_new_col (num_col lp) lp))"

section \<open>\<open>HighsLp::unapplyMods\<close>\<close>

definition restore_non_semi :: "int \<Rightarrow> rat HighsLp \<Rightarrow> error + rat HighsLp" where
  "restore_non_semi k lp =
     bindE (vec_get (save_non_semi_variable_index (mods lp)) k) (\<lambda>iCol.
     bindE (vec_get (integrality lp) iCol) (\<lambda>t.
       if \<not> (t = kContinuous \<or> t = kInteger) then Inl AssertionFailure
       else if t = kContinuous then
         bindE (vec_set (integrality lp) iCol kSemiContinuous) (\<lambda>v. Inr (lp\<lparr>integrality := v\<rparr>))
       else
         bindE (vec_set (integrality lp) iCol kSemiInteger) (\<lambda>v. Inr (lp\<lparr>integrality := v\<rparr>))))"

definition restore_inconsistent_semi :: "int \<Rightarrow> rat HighsLp \<Rightarrow> error + rat HighsLp" where
  "restore_inconsistent_semi k lp =
     bindE (vec_get (save_inconsistent_semi_variable_index (mods lp)) k) (\<lambda>iCol.
     bindE (vec_get (save_inconsistent_semi_variable_lower_bound_value (mods lp)) k) (\<lambda>v.
     bindE (vec_set (col_lower lp) iCol v) (\<lambda>xs.
     let lp = lp\<lparr>col_lower := xs\<rparr> in
     bindE (vec_get (save_inconsistent_semi_variable_upper_bound_value (mods lp)) k) (\<lambda>v.
     bindE (vec_set (col_upper lp) iCol v) (\<lambda>xs.
     let lp = lp\<lparr>col_upper := xs\<rparr> in
     bindE (vec_get (save_inconsistent_semi_variable_type (mods lp)) k) (\<lambda>v.
     bindE (vec_set (integrality lp) iCol v) (\<lambda>xs.
     Inr (lp\<lparr>integrality := xs\<rparr>))))))))"

definition restore_relaxed_lower :: "int \<Rightarrow> rat HighsLp \<Rightarrow> error + rat HighsLp" where
  "restore_relaxed_lower k lp =
     bindE (vec_get (save_relaxed_semi_variable_lower_bound_index (mods lp)) k) (\<lambda>iCol.
     bindE (vec_get (integrality lp) iCol) (\<lambda>t.
       if \<not> (t = kSemiContinuous \<or> t = kSemiInteger) then Inl AssertionFailure
       else
         bindE (vec_get (save_relaxed_semi_variable_lower_bound_value (mods lp)) k) (\<lambda>v.
         bindE (vec_set (col_lower lp) iCol v) (\<lambda>xs.
         Inr (lp\<lparr>col_lower := xs\<rparr>)))))"

definition restore_tightened_upper :: "int \<Rightarrow> rat HighsLp \<Rightarrow> error + rat HighsLp" where
  "restore_tightened_upper k lp =
     bindE (vec_get (save_tightened_semi_variable_upper_bound_index (mods lp)) k) (\<lambda>iCol.
     bindE (vec_get (integrality lp) iCol) (\<lambda>t.
       if \<not> (t = kSemiContinuous \<or> t = kSemiInteger) then Inl AssertionFailure
       else
         bindE (vec_get (save_tightened_semi_variable_upper_bound_value (mods lp)) k) (\<lambda>v.
         bindE (vec_set (col_upper lp) iCol v) (\<lambda>xs.
         Inr (lp\<lparr>col_upper := xs\<rparr>)))))"

definition unapplyMods :: "rat HighsLp \<Rightarrow> error + rat HighsLp" where
  "unapplyMods lp =
     (let num_non_semi = int (length (save_non_semi_variable_index (mods lp))) in
      bindE (for_loop 0 num_non_semi restore_non_semi lp) (\<lambda>lp.
      let num_inconsistent_semi = int (length (save_inconsistent_semi_variable_index (mods lp))) in
      if num_inconsistent_semi = 0 \<and>
         (length (save_inconsistent_semi_variable_lower_bound_value (mods lp)) \<noteq> 0 \<or>
          length (save_inconsistent_semi_variable_upper_bound_value (mods lp)) \<noteq> 0 \<or>
          length (save_inconsistent_semi_variable_type (mods lp)) \<noteq> 0)
      then Inl AssertionFailure
      else
      bindE (for_loop 0 num_inconsistent_semi restore_inconsistent_semi lp) (\<lambda>lp.
      let num_lower_bound = int (length (save_relaxed_semi_variable_lower_bound_index (mods lp))) in
      if num_lower_bound = 0 \<and> length (save_relaxed_semi_variable_lower_bound_value (mods lp)) \<noteq> 0
      then Inl AssertionFailure
      else
      bindE (for_loop 0 num_lower_bound restore_relaxed_lower lp) (\<lambda>lp.
      let num_upper_bound = int (length (save_tightened_semi_variable_upper_bound_index (mods lp))) in
      if num_upper_bound = 0 \<and> length (save_tightened_semi_variable_upper_bound_value (mods lp)) \<noteq> 0
      then Inl AssertionFailure
      else
      bindE (for_loop 0 num_upper_bound restore_tightened_upper lp) (\<lambda>lp.
      Inr (lp\<lparr>mods := mods_clear (mods lp)\<rparr>))))))"

section \<open>The restore contract, in the words of the specification\<close>

text \<open>
  The specification describes the restore as four passes over the logs. These
  definitions follow its wording, not the code, and are compared with \<open>unapplyMods\<close>
  below. Log 1 infers the semi type from the current type; logs 2 to 4 write saved
  values back.
\<close>

fun infer_semi :: "HighsVarType \<Rightarrow> HighsVarType" where
  "infer_semi kContinuous = kSemiContinuous"
| "infer_semi kInteger = kSemiInteger"
| "infer_semi t = t"

fun restore_types :: "int list \<Rightarrow> HighsVarType list \<Rightarrow> HighsVarType list" where
  "restore_types [] tys = tys"
| "restore_types (iCol # rest) tys =
     restore_types rest (tys[nat iCol := infer_semi (tys ! nat iCol)])"

fun write_back :: "(int \<times> 'a) list \<Rightarrow> 'a list \<Rightarrow> 'a list" where
  "write_back [] xs = xs"
| "write_back ((iCol, v) # rest) xs = write_back rest (xs[nat iCol := v])"

definition restore_spec :: "rat HighsLp \<Rightarrow> rat HighsLp" where
  "restore_spec lp =
     (let m = mods lp;
          tys = restore_types (save_non_semi_variable_index m) (integrality lp);
          lo = write_back (zip (save_inconsistent_semi_variable_index m)
                               (save_inconsistent_semi_variable_lower_bound_value m)) (col_lower lp);
          up = write_back (zip (save_inconsistent_semi_variable_index m)
                               (save_inconsistent_semi_variable_upper_bound_value m)) (col_upper lp);
          tys = write_back (zip (save_inconsistent_semi_variable_index m)
                                (save_inconsistent_semi_variable_type m)) tys;
          lo = write_back (zip (save_relaxed_semi_variable_lower_bound_index m)
                               (save_relaxed_semi_variable_lower_bound_value m)) lo;
          up = write_back (zip (save_tightened_semi_variable_upper_bound_index m)
                               (save_tightened_semi_variable_upper_bound_value m)) up
      in lp\<lparr>col_lower := lo, col_upper := up, integrality := tys, mods := mods_clear m\<rparr>)"

text \<open>
  The restore preconditions. A column of log 1 is continuous or integer when the
  first pass reaches it; the columns of logs 3 and 4 are semi-continuous or
  semi-integer when their passes run, that is after the first two passes; every index
  is in range; and the sequences of one log have one length.
\<close>

fun non_semi_ok :: "int list \<Rightarrow> HighsVarType list \<Rightarrow> bool" where
  "non_semi_ok [] tys = True"
| "non_semi_ok (iCol # rest) tys =
     (0 \<le> iCol \<and> iCol < int (length tys) \<and>
      (tys ! nat iCol = kContinuous \<or> tys ! nat iCol = kInteger) \<and>
      non_semi_ok rest (tys[nat iCol := infer_semi (tys ! nat iCol)]))"

definition in_range :: "int list \<Rightarrow> 'a list \<Rightarrow> bool" where
  "in_range idx xs \<longleftrightarrow> (\<forall>iCol \<in> set idx. 0 \<le> iCol \<and> iCol < int (length xs))"

definition semi_at :: "int list \<Rightarrow> HighsVarType list \<Rightarrow> bool" where
  "semi_at idx tys \<longleftrightarrow>
     (\<forall>iCol \<in> set idx. 0 \<le> iCol \<and> iCol < int (length tys) \<and>
        (tys ! nat iCol = kSemiContinuous \<or> tys ! nat iCol = kSemiInteger))"

definition restore_pre :: "rat HighsLp \<Rightarrow> bool" where
  "restore_pre lp =
     (let m = mods lp;
          tys1 = restore_types (save_non_semi_variable_index m) (integrality lp);
          tys2 = write_back (zip (save_inconsistent_semi_variable_index m)
                                 (save_inconsistent_semi_variable_type m)) tys1
      in non_semi_ok (save_non_semi_variable_index m) (integrality lp) \<and>
         length (save_inconsistent_semi_variable_lower_bound_value m)
           = length (save_inconsistent_semi_variable_index m) \<and>
         length (save_inconsistent_semi_variable_upper_bound_value m)
           = length (save_inconsistent_semi_variable_index m) \<and>
         length (save_inconsistent_semi_variable_type m)
           = length (save_inconsistent_semi_variable_index m) \<and>
         in_range (save_inconsistent_semi_variable_index m) (col_lower lp) \<and>
         in_range (save_inconsistent_semi_variable_index m) (col_upper lp) \<and>
         in_range (save_inconsistent_semi_variable_index m) (integrality lp) \<and>
         length (save_relaxed_semi_variable_lower_bound_value m)
           = length (save_relaxed_semi_variable_lower_bound_index m) \<and>
         in_range (save_relaxed_semi_variable_lower_bound_index m) (col_lower lp) \<and>
         semi_at (save_relaxed_semi_variable_lower_bound_index m) tys2 \<and>
         length (save_tightened_semi_variable_upper_bound_value m)
           = length (save_tightened_semi_variable_upper_bound_index m) \<and>
         in_range (save_tightened_semi_variable_upper_bound_index m) (col_upper lp) \<and>
         semi_at (save_tightened_semi_variable_upper_bound_index m) tys2)"

section \<open>Well-formed models for scaling\<close>

text \<open>
  The data model: every per-column vector has one entry per column, every per-row
  vector one per row, the scale factors were formed for these dimensions, and every
  matrix entry lies inside them.
\<close>

definition dims_wf :: "rat HighsLp \<Rightarrow> bool" where
  "dims_wf lp \<longleftrightarrow>
     int (length (col_cost lp)) = num_col lp \<and>
     int (length (col_lower lp)) = num_col lp \<and>
     int (length (col_upper lp)) = num_col lp \<and>
     int (length (row_lower lp)) = num_row lp \<and>
     int (length (row_upper lp)) = num_row lp \<and>
     int (length (scale_col (scale lp))) = num_col lp \<and>
     int (length (scale_row (scale lp))) = num_row lp \<and>
     (\<forall>e \<in> set (entries (a_matrix lp)).
        0 \<le> fst e \<and> fst e < num_row lp \<and> 0 \<le> fst (snd e) \<and> fst (snd e) < num_col lp)"

definition factors_positive :: "rat HighsScale \<Rightarrow> bool" where
  "factors_positive sc \<longleftrightarrow> (\<forall>c \<in> set (scale_col sc). 0 < c) \<and> (\<forall>r \<in> set (scale_row sc). 0 < r)"

text \<open>
  The effect of a loop \<open>for (k = i; k < n; k++) xs[k] = f(xs[k], cs[k])\<close> in closed
  form; the loops of \<open>applyScale\<close> and \<open>unapplyScale\<close> are compared with it below.
\<close>

definition apply_range :: "(rat \<Rightarrow> rat \<Rightarrow> rat) \<Rightarrow> int \<Rightarrow> int \<Rightarrow> rat list \<Rightarrow> rat list \<Rightarrow> rat list" where
  "apply_range f i n xs cs =
     map (\<lambda>k. if i \<le> int k \<and> int k < n then f (xs ! k) (cs ! k) else xs ! k) [0..<length xs]"

section \<open>The arithmetic of \<open>double\<close>\<close>

text \<open>
  IEEE 754 binary64 with rounding to nearest, ties to even. A value is finite, with a
  sign (true for negative) and a magnitude that is a non-negative rational, so both
  zeros exist; or an infinity with its sign; or a NaN (payloads are not told apart).
  \<open>floor_log2 x\<close> is the exponent \<open>e\<close> with \<open>2^e \<le> x < 2^(e+1)\<close> of a positive \<open>x\<close>.
  The representable magnitudes around \<open>x\<close> are the multiples of \<open>2^(e-52)\<close>, with
  \<open>e\<close> no smaller than \<open>-1022\<close> (the subnormal range); an exact result of magnitude
  \<open>2^1024 - 2^970\<close> or more rounds to infinity.
\<close>

datatype double = Finite bool rat | Infinity bool | NaN

definition floor_log2 :: "rat \<Rightarrow> int" where
  "floor_log2 x =
     (let (p, q) = quotient_of x;
          d = bitlen p - bitlen q
      in if 2 powi d \<le> x then d else d - 1)"

definition round_half_even :: "rat \<Rightarrow> int" where
  "round_half_even q =
     (let n = \<lfloor>q\<rfloor>; r = q - of_int n
      in if r < 1 / 2 then n else if 1 / 2 < r then n + 1 else if even n then n else n + 1)"

definition round_to_grid :: "rat \<Rightarrow> rat" where
  "round_to_grid m =
     (if m = 0 then 0
      else
        let e = max (floor_log2 m) (- 1022);
            ulp = 2 powi (e - 52)
        in of_int (round_half_even (m / ulp)) * ulp)"

definition double_round :: "bool \<Rightarrow> rat \<Rightarrow> double" where
  "double_round s m = (if 2 ^ 1024 - 2 ^ 970 \<le> m then Infinity s else Finite s (round_to_grid m))"

fun double_mul :: "double \<Rightarrow> double \<Rightarrow> double" where
  "double_mul NaN y = NaN"
| "double_mul x NaN = NaN"
| "double_mul (Infinity s) (Infinity t) = Infinity (s \<noteq> t)"
| "double_mul (Infinity s) (Finite t n) = (if n = 0 then NaN else Infinity (s \<noteq> t))"
| "double_mul (Finite s m) (Infinity t) = (if m = 0 then NaN else Infinity (s \<noteq> t))"
| "double_mul (Finite s m) (Finite t n) = double_round (s \<noteq> t) (m * n)"

fun double_div :: "double \<Rightarrow> double \<Rightarrow> double" where
  "double_div NaN y = NaN"
| "double_div x NaN = NaN"
| "double_div (Infinity s) (Infinity t) = NaN"
| "double_div (Infinity s) (Finite t n) = Infinity (s \<noteq> t)"
| "double_div (Finite s m) (Infinity t) = Finite (s \<noteq> t) 0"
| "double_div (Finite s m) (Finite t n) =
     (if n = 0 then (if m = 0 then NaN else Infinity (s \<noteq> t))
      else double_round (s \<noteq> t) (m / n))"

text \<open>The operators \<open>*\<close> and \<open>/\<close> on \<open>double\<close>, and its \<open>1\<close>, are these.\<close>

instantiation double :: "{one, times, inverse}"
begin

definition one_double :: double where
  "one_double = Finite False 1"

definition times_double :: "double \<Rightarrow> double \<Rightarrow> double" where
  "times_double x y = double_mul x y"

definition divide_double :: "double \<Rightarrow> double \<Rightarrow> double" where
  "divide_double x y = double_div x y"

definition inverse_double :: "double \<Rightarrow> double" where
  "inverse_double x = double_div (Finite False 1) x"

instance ..

end

section \<open>Example states\<close>

text \<open>
  The state \<open>HighsLp::clear\<close> leaves behind, used as the base of the concrete inputs;
  the strategy constant \<open>kSimplexScaleStrategyOff\<close> is written \<open>0\<close>.
\<close>

definition empty_mods :: "rat HighsLpMods" where
  "empty_mods =
     \<lparr> save_non_semi_variable_index = [],
       save_inconsistent_semi_variable_index = [],
       save_inconsistent_semi_variable_lower_bound_value = [],
       save_inconsistent_semi_variable_upper_bound_value = [],
       save_inconsistent_semi_variable_type = [],
       save_relaxed_semi_variable_lower_bound_index = [],
       save_relaxed_semi_variable_lower_bound_value = [],
       save_tightened_semi_variable_upper_bound_index = [],
       save_tightened_semi_variable_upper_bound_value = [] \<rparr>"

definition empty_scale :: "rat HighsScale" where
  "empty_scale =
     \<lparr> strategy = 0, has_scaling = False, scale_num_col = 0, scale_num_row = 0,
       scale_cost = 0, scale_col = [], scale_row = [] \<rparr>"

definition empty_matrix :: "rat HighsSparseMatrix" where
  "empty_matrix = \<lparr> format = kColwise, matrix_num_col = 0, matrix_num_row = 0, entries = [] \<rparr>"

definition empty_lp :: "rat HighsLp" where
  "empty_lp =
     \<lparr> num_col = 0, num_row = 0,
       col_cost = [], col_lower = [], col_upper = [], row_lower = [], row_upper = [],
       a_matrix = empty_matrix,
       sense = kMinimize, offset = 0,
       model_name = [], objective_name = [],
       new_col_name_ix = 0, new_row_name_ix = 0,
       col_names = [], row_names = [],
       integrality = [],
       col_hash = \<lparr> name2index = Map.empty \<rparr>, row_hash = \<lparr> name2index = Map.empty \<rparr>,
       scale = empty_scale,
       is_scaled = False, is_moved = False, cost_row_location = - 1,
       mods = empty_mods \<rparr>"

definition stale_hash :: HighsNameHash where
  "stale_hash = \<lparr>name2index = [''a'' \<mapsto> 0]\<rparr>"

definition empty_hash :: HighsNameHash where
  "empty_hash = \<lparr>name2index = Map.empty\<rparr>"

text \<open>
  A model with two columns, one row and two matrix entries, with a scale defined
  (column factors 2 and 4, row factor 3) and not yet applied.
\<close>

definition scaled_example :: "rat HighsLp" where
  "scaled_example = empty_lp
     \<lparr> num_col := 2, num_row := 1,
       col_cost := [1, 2], col_lower := [0, 1], col_upper := [4, 6],
       row_lower := [2], row_upper := [3],
       a_matrix := \<lparr> format = kColwise, matrix_num_col = 2, matrix_num_row = 1,
                     entries = [(0, 0, 5), (0, 1, 7)] \<rparr>,
       scale := \<lparr> strategy = 1, has_scaling = True, scale_num_col = 2, scale_num_row = 1,
                  scale_cost = 1, scale_col = [2, 4], scale_row = [3] \<rparr> \<rparr>"

text \<open>
  A model with four columns whose journal has entries in all four logs: columns 0 and
  1 were downgraded from semi types, column 3 had inconsistent bounds overridden,
  column 2 had its lower bound relaxed and column 0 its upper bound tightened.
\<close>

definition journal_example :: "rat HighsLp" where
  "journal_example = empty_lp
     \<lparr> num_col := 4,
       col_cost := [1, 1, 1, 1], col_lower := [0, 0, 1, 2], col_upper := [10, 10, 5, 1],
       integrality := [kContinuous, kInteger, kSemiContinuous, kSemiInteger],
       mods := \<lparr> save_non_semi_variable_index = [0, 1],
                 save_inconsistent_semi_variable_index = [3],
                 save_inconsistent_semi_variable_lower_bound_value = [7],
                 save_inconsistent_semi_variable_upper_bound_value = [9],
                 save_inconsistent_semi_variable_type = [kSemiInteger],
                 save_relaxed_semi_variable_lower_bound_index = [2],
                 save_relaxed_semi_variable_lower_bound_value = [3],
                 save_tightened_semi_variable_upper_bound_index = [0],
                 save_tightened_semi_variable_upper_bound_value = [20] \<rparr> \<rparr>"

text \<open>
  A model with two named columns whose second name is the first synthetic name, with
  the hash formed; and the same names with an unformed hash and another taken name.
\<close>

definition collision_example :: "rat HighsLp" where
  "collision_example = empty_lp
     \<lparr> num_col := 2, col_cost := [1, 1], col_lower := [0, 0], col_upper := [1, 1],
       col_names := [''a'', ''col_ekk_0''],
       col_hash := \<lparr> name2index = [''a'' \<mapsto> 0, ''col_ekk_0'' \<mapsto> 1] \<rparr> \<rparr>"

definition late_collision_example :: "rat HighsLp" where
  "late_collision_example = empty_lp
     \<lparr> num_col := 2, col_cost := [1, 1], col_lower := [0, 0], col_upper := [1, 1],
       col_names := [''a'', ''col_ekk_1''] \<rparr>"


section \<open>Variable types\<close>

lemma isMip_loop_eq:
  assumes "0 \<le> iCol" and "num_col lp = int (length (integrality lp))"
  shows "isMip_loop lp iCol =
           Inr (\<exists>k. nat iCol \<le> k \<and> k < length (integrality lp) \<and> integrality lp ! k \<noteq> kContinuous)"
  using assms
proof (induction lp iCol rule: isMip_loop.induct)
  case (1 lp iCol)
  show ?case
  proof (cases "iCol < num_col lp")
    case False
    with "1.prems" show ?thesis
      by (subst isMip_loop.simps) auto
  next
    case True
    with "1.prems" have get: "vec_get (integrality lp) iCol = Inr (integrality lp ! nat iCol)"
      by (simp add: vec_get_def)
    show ?thesis
    proof (cases "integrality lp ! nat iCol \<noteq> kContinuous")
      case True
      with \<open>iCol < num_col lp\<close> "1.prems" get show ?thesis
        by (subst isMip_loop.simps) (auto intro!: exI [of _ "nat iCol"])
    next
      case False
      with \<open>iCol < num_col lp\<close> "1.prems" get
      have "isMip_loop lp iCol = isMip_loop lp (iCol + 1)"
        by (subst isMip_loop.simps) simp
      also have "\<dots> = Inr (\<exists>k. nat (iCol + 1) \<le> k \<and> k < length (integrality lp)
                            \<and> integrality lp ! k \<noteq> kContinuous)"
        using "1.IH" [OF \<open>iCol < num_col lp\<close> get] False "1.prems" by simp
      also have "(\<exists>k. nat (iCol + 1) \<le> k \<and> k < length (integrality lp)
                      \<and> integrality lp ! k \<noteq> kContinuous)
               = (\<exists>k. nat iCol \<le> k \<and> k < length (integrality lp)
                      \<and> integrality lp ! k \<noteq> kContinuous)"
      proof -
        have "nat (iCol + 1) = Suc (nat iCol)"
          using "1.prems" by simp
        moreover have "k \<noteq> nat iCol" if "integrality lp ! k \<noteq> kContinuous" for k
          using that False by auto
        ultimately show ?thesis
          by (metis Suc_leI Suc_leD le_neq_implies_less)
      qed
      finally show ?thesis .
    qed
  qed
qed

lemma hasSemiVariables_loop_eq:
  assumes "0 \<le> iCol" and "num_col lp = int (length (integrality lp))"
  shows "hasSemiVariables_loop lp iCol =
           Inr (\<exists>k. nat iCol \<le> k \<and> k < length (integrality lp) \<and>
                    (integrality lp ! k = kSemiContinuous \<or> integrality lp ! k = kSemiInteger))"
  using assms
proof (induction lp iCol rule: hasSemiVariables_loop.induct)
  case (1 lp iCol)
  let ?semi = "\<lambda>k. integrality lp ! k = kSemiContinuous \<or> integrality lp ! k = kSemiInteger"
  show ?case
  proof (cases "iCol < num_col lp")
    case False
    with "1.prems" show ?thesis
      by (subst hasSemiVariables_loop.simps) auto
  next
    case True
    with "1.prems" have get: "vec_get (integrality lp) iCol = Inr (integrality lp ! nat iCol)"
      by (simp add: vec_get_def)
    show ?thesis
    proof (cases "?semi (nat iCol)")
      case True
      with \<open>iCol < num_col lp\<close> "1.prems" get show ?thesis
        by (subst hasSemiVariables_loop.simps) (auto intro!: exI [of _ "nat iCol"])
    next
      case False
      with \<open>iCol < num_col lp\<close> "1.prems" get
      have "hasSemiVariables_loop lp iCol = hasSemiVariables_loop lp (iCol + 1)"
        by (subst hasSemiVariables_loop.simps) simp
      also have "\<dots> = Inr (\<exists>k. nat (iCol + 1) \<le> k \<and> k < length (integrality lp) \<and> ?semi k)"
        using "1.IH" [OF \<open>iCol < num_col lp\<close> get] False "1.prems" by simp
      also have "(\<exists>k. nat (iCol + 1) \<le> k \<and> k < length (integrality lp) \<and> ?semi k)
               = (\<exists>k. nat iCol \<le> k \<and> k < length (integrality lp) \<and> ?semi k)"
      proof -
        have "nat (iCol + 1) = Suc (nat iCol)"
          using "1.prems" by simp
        moreover have "k \<noteq> nat iCol" if "?semi k" for k
          using that False by auto
        ultimately show ?thesis
          by (metis Suc_leI Suc_leD le_neq_implies_less)
      qed
      finally show ?thesis .
    qed
  qed
qed

lemma isMip_nonempty:
  assumes "integrality lp \<noteq> []" and "int (length (integrality lp)) = num_col lp"
  shows "isMip lp = Inr (\<exists>t \<in> set (integrality lp). t \<noteq> kContinuous)"
proof -
  have "isMip lp = isMip_loop lp 0"
    using assms by (auto simp: isMip_def Let_def)
  also have "\<dots> = Inr (\<exists>k. k < length (integrality lp) \<and> integrality lp ! k \<noteq> kContinuous)"
    using assms isMip_loop_eq [of 0 lp] by simp
  finally show ?thesis
    by (simp add: in_set_conv_nth Bex_def) metis
qed

lemma hasSemiVariables_nonempty:
  assumes "integrality lp \<noteq> []" and "int (length (integrality lp)) = num_col lp"
  shows "hasSemiVariables lp =
           Inr (\<exists>t \<in> set (integrality lp). t = kSemiContinuous \<or> t = kSemiInteger)"
proof -
  have "hasSemiVariables lp = hasSemiVariables_loop lp 0"
    using assms by (auto simp: hasSemiVariables_def Let_def)
  also have "\<dots> = Inr (\<exists>k. k < length (integrality lp) \<and>
                (integrality lp ! k = kSemiContinuous \<or> integrality lp ! k = kSemiInteger))"
    using assms hasSemiVariables_loop_eq [of 0 lp] by simp
  finally show ?thesis
    by (simp add: in_set_conv_nth Bex_def) metis
qed

text \<open>
  C10: with an empty integrality sequence \<open>isMip\<close> and \<open>hasSemiVariables\<close> both return
  false, whatever the column count. With a non-empty sequence whose length is the column
  count, \<open>isMip\<close> returns true exactly when some entry is not continuous, and
  \<open>hasSemiVariables\<close> exactly when some entry is semi-continuous or semi-integer.
\<close>

theorem isMip_hasSemiVariables_by_integrality:
  "(integrality lp = [] \<longrightarrow> isMip lp = Inr False \<and> hasSemiVariables lp = Inr False) \<and>
   (integrality lp \<noteq> [] \<and> int (length (integrality lp)) = num_col lp \<longrightarrow>
      isMip lp = Inr (\<exists>t \<in> set (integrality lp). t \<noteq> kContinuous) \<and>
      hasSemiVariables lp =
        Inr (\<exists>t \<in> set (integrality lp). t = kSemiContinuous \<or> t = kSemiInteger))"
proof (intro conjI impI)
  assume "integrality lp = []"
  then show "isMip lp = Inr False" by (simp add: isMip_def)
next
  assume "integrality lp = []"
  then show "hasSemiVariables lp = Inr False" by (simp add: hasSemiVariables_def)
next
  assume "integrality lp \<noteq> [] \<and> int (length (integrality lp)) = num_col lp"
  then show "isMip lp = Inr (\<exists>t \<in> set (integrality lp). t \<noteq> kContinuous)"
    by (simp add: isMip_nonempty)
next
  assume "integrality lp \<noteq> [] \<and> int (length (integrality lp)) = num_col lp"
  then show "hasSemiVariables lp =
      Inr (\<exists>t \<in> set (integrality lp). t = kSemiContinuous \<or> t = kSemiInteger)"
    by (simp add: hasSemiVariables_nonempty)
qed

theorem isMip_hasSemiVariables_by_integrality_witness:
  "isMip (empty_lp\<lparr>num_col := 2\<rparr>) = Inr False \<and>
   hasSemiVariables (empty_lp\<lparr>num_col := 2\<rparr>) = Inr False \<and>
   isMip (empty_lp\<lparr>num_col := 2, integrality := [kContinuous, kInteger]\<rparr>) = Inr True \<and>
   hasSemiVariables (empty_lp\<lparr>num_col := 2, integrality := [kContinuous, kInteger]\<rparr>) = Inr False \<and>
   hasSemiVariables (empty_lp\<lparr>num_col := 2, integrality := [kContinuous, kSemiInteger]\<rparr>) = Inr True"
  using isMip_hasSemiVariables_by_integrality [of "empty_lp\<lparr>num_col := 2\<rparr>"]
        isMip_hasSemiVariables_by_integrality
          [of "empty_lp\<lparr>num_col := 2, integrality := [kContinuous, kInteger]\<rparr>"]
        isMip_hasSemiVariables_by_integrality
          [of "empty_lp\<lparr>num_col := 2, integrality := [kContinuous, kSemiInteger]\<rparr>"]
  by (simp add: empty_lp_def)

section \<open>The journal's emptiness test\<close>

lemma isClear_eq:
  "isClear m \<longleftrightarrow>
     save_non_semi_variable_index m = [] \<and>
     save_inconsistent_semi_variable_index m = [] \<and>
     save_inconsistent_semi_variable_lower_bound_value m = [] \<and>
     save_inconsistent_semi_variable_upper_bound_value m = [] \<and>
     save_inconsistent_semi_variable_type m = [] \<and>
     save_relaxed_semi_variable_lower_bound_value m = [] \<and>
     save_tightened_semi_variable_upper_bound_index m = [] \<and>
     save_tightened_semi_variable_upper_bound_value m = []"
  by (simp add: isClear_def)

text \<open>
  C2: \<open>isClear\<close> is meant to hold exactly when all nine sequences of the journal are
  empty. The source tests the saved values of the relaxed lower bounds twice and their
  indices never, so a journal whose only non-empty sequence is that index sequence is
  reported clear.
\<close>

theorem isClear_ignores_relaxed_lower_index:
  "isClear (empty_mods\<lparr>save_relaxed_semi_variable_lower_bound_index := [0]\<rparr>) = True \<and>
   all_logs_empty (empty_mods\<lparr>save_relaxed_semi_variable_lower_bound_index := [0]\<rparr>) = False"
  by (simp add: isClear_def all_logs_empty_def empty_mods_def)

section \<open>Equality but for names\<close>

lemma equalButForNames_eq:
  "equalButForNames this lp \<longleftrightarrow> a_matrix this = a_matrix lp \<and> scale this = scale lp"
  by (auto simp: equalButForNames_def Let_def HighsScale.equality)

text \<open>
  C1: \<open>equalButForNames\<close> is meant to hold exactly when dimensions, sense, offset,
  model name, costs, bounds, matrix and scale all match. The assignment from the matrix
  comparison drops the conjunction with the result so far, so two models that differ
  only in their offset compare equal.
\<close>

theorem equalButForNames_ignores_offset:
  "equalButForNames empty_lp (empty_lp\<lparr>offset := 1\<rparr>) = True \<and>
   offset empty_lp \<noteq> offset (empty_lp\<lparr>offset := 1\<rparr>)"
  by (simp add: equalButForNames_def empty_lp_def)

section \<open>Duplicate detection\<close>

lemma repeated_in_prefix_not_distinct:
  assumes "k < length xs" and "xs ! k \<in> set (take k xs)"
  shows "\<not> distinct xs"
proof -
  from assms(2) obtain i where "i < k" and "xs ! i = xs ! k"
    by (auto simp: in_set_conv_nth)
  with assms(1) have "i < length xs" "k < length xs" "i \<noteq> k" "xs ! i = xs ! k"
    by auto
  then show ?thesis
    unfolding distinct_conv_nth by blast
qed

lemma hasDuplicate_loop_result:
  assumes "0 \<le> index" and "index \<le> num_name" and "num_name = int (length name)"
    and "dom (name2index h) = set (take (nat index) name)"
    and "distinct (take (nat index) name)"
  shows "\<exists>h'. hasDuplicate_loop name num_name index False h = Inr (\<not> distinct name, h')"
  using assms
proof (induction name num_name index "False" h rule: hasDuplicate_loop.induct)
  case (1 name num_name index h)
  show ?case
  proof (cases "index < num_name")
    case False
    with "1.prems" have "nat index = length name" by simp
    with "1.prems" False show ?thesis
      by (subst hasDuplicate_loop.simps) simp
  next
    case True
    let ?k = "nat index"
    let ?key = "name ! ?k"
    from True "1.prems" have k: "?k < length name" by simp
    from True "1.prems" have get: "vec_get name index = Inr ?key"
      by (simp add: vec_get_def)
    show ?thesis
    proof (cases "name2index h ?key = None")
      case False
      then have "?key \<in> dom (name2index h)"
        by (simp add: domIff)
      then have "?key \<in> set (take ?k name)"
        using "1.prems"(4) by simp
      with k have "\<not> distinct name"
        by (rule repeated_in_prefix_not_distinct)
      with True get False show ?thesis
        by (subst hasDuplicate_loop.simps) (auto simp: emplace_def)
    next
      case None: True
      let ?h' = "h\<lparr>name2index := (name2index h)(?key \<mapsto> index)\<rparr>"
      have emp: "emplace h ?key index = (?h', True)"
        using None by (simp add: emplace_def)
      have suc: "nat (index + 1) = Suc ?k"
        using "1.prems" by simp
      have "?key \<notin> dom (name2index h)"
        using None by (simp add: domIff)
      then have notin: "?key \<notin> set (take ?k name)"
        using "1.prems"(4) by simp
      have "\<exists>h''. hasDuplicate_loop name num_name (index + 1) False ?h' = Inr (\<not> distinct name, h'')"
      proof (rule "1.hyps" [OF True get emp [symmetric]])
        show "\<not> \<not> True" by simp
        show "0 \<le> index + 1" using "1.prems" by simp
        show "index + 1 \<le> num_name" using True by simp
        show "num_name = int (length name)" by fact
        show "dom (name2index ?h') = set (take (nat (index + 1)) name)"
          using "1.prems" k by (simp add: suc take_Suc_conv_app_nth)
        show "distinct (take (nat (index + 1)) name)"
          using "1.prems" k notin by (simp add: suc take_Suc_conv_app_nth)
      qed
      with True get emp show ?thesis
        by (subst hasDuplicate_loop.simps) simp
    qed
  qed
qed

lemma not_distinct_iff_repeated:
  "(\<not> distinct xs) = (\<exists>i j. i < j \<and> j < length xs \<and> xs ! i = xs ! j)"
proof
  assume "\<not> distinct xs"
  then obtain i j where ij: "i < length xs" "j < length xs" "i \<noteq> j" "xs ! i = xs ! j"
    unfolding distinct_conv_nth by blast
  show "\<exists>i j. i < j \<and> j < length xs \<and> xs ! i = xs ! j"
  proof (cases "i < j")
    case True
    with ij show ?thesis by blast
  next
    case False
    with ij have "j < i" by simp
    with ij show ?thesis by metis
  qed
next
  assume "\<exists>i j. i < j \<and> j < length xs \<and> xs ! i = xs ! j"
  then obtain i j where "i < j" "j < length xs" "xs ! i = xs ! j" by blast
  then have "i < length xs" "j < length xs" "i \<noteq> j" "xs ! i = xs ! j" by auto
  then show "\<not> distinct xs"
    unfolding distinct_conv_nth by blast
qed

text \<open>
  C3, as the code has it: \<open>hasDuplicate\<close> returns true exactly when some name occurs at
  two indices of the sequence, and it leaves the \<open>name2index\<close> of the hash it is called
  on empty, whatever that map held before the call.
\<close>

theorem hasDuplicate_result_and_cleared_hash:
  "hasDuplicate h names =
     Inr ((\<exists>i j. i < j \<and> j < length names \<and> names ! i = names ! j), empty_hash)"
proof -
  obtain h' where loop:
    "hasDuplicate_loop names (int (length names)) 0 False (hash_clear h) = Inr (\<not> distinct names, h')"
    using hasDuplicate_loop_result [of 0 "int (length names)" names "hash_clear h"]
    by (auto simp: hash_clear_def)
  have "(\<not> distinct names) = (\<exists>i j. i < j \<and> j < length names \<and> names ! i = names ! j)"
    by (rule not_distinct_iff_repeated)
  with loop show ?thesis
    by (simp add: hasDuplicate_def Let_def bindE_def hash_clear_def empty_hash_def)
qed

text \<open>
  C3 as stated fails: called on a hash that maps \<open>a\<close> to 0, \<open>hasDuplicate\<close> returns a
  hash in which \<open>a\<close> is no longer present.
\<close>

theorem hasDuplicate_clears_stale_hash:
  "hasDuplicate stale_hash [''b''] = Inr (False, empty_hash) \<and>
   name2index empty_hash ''a'' \<noteq> name2index stale_hash ''a''"
  by (simp add: hasDuplicate_def hasDuplicate_loop.simps bindE_def vec_get_def emplace_def
                hash_clear_def stale_hash_def empty_hash_def Let_def)

section \<open>Forming the hash\<close>

lemma form_spec_example:
  "\<exists>h. form s empty_hash [''x1'', ''x2'', ''x1''] = Inr h \<and>
       name2index h ''x1'' = Some s \<and> name2index h ''x2'' = Some 1"
  by (simp add: form_def for_loop.simps form_body_def bindE_def vec_get_def emplace_def
                hash_size_def hash_clear_def empty_hash_def Let_def)

text \<open>
  C7: \<open>form\<close> is meant to map every repeated name to the duplicate sentinel. Its
  assertion compares the index stored for the repeated name with the current size of the
  map, which an earlier duplicate has made smaller than the number of names read; on
  \<open>a, a, b, b\<close> the stored index of \<open>b\<close> is 2 and the map holds 2 keys, so the
  assertion fails before \<open>b\<close> is marked.
\<close>

theorem form_assertion_fails_after_earlier_duplicate:
  "form (- 1) empty_hash [''a'', ''a'', ''b'', ''b''] = Inl AssertionFailure"
  by (simp add: form_def for_loop.simps form_body_def bindE_def vec_get_def emplace_def
                hash_size_def hash_clear_def empty_hash_def Let_def)

section \<open>Exact resize\<close>

lemma length_vec_resize:
  "0 \<le> n \<Longrightarrow> \<exists>ys. vec_resize d n xs = Inr ys \<and> int (length ys) = n"
  by (auto simp: vec_resize_def)

text \<open>
  C9: for non-negative counts, \<open>exactResize\<close> resizes the cost and bound vectors to
  exactly the column and row counts, leaves an empty column-name, row-name or
  integrality sequence empty, and resizes a non-empty one to exactly its count.
\<close>

theorem exactResize_keeps_untracked_empty:
  assumes "0 \<le> num_col lp" and "0 \<le> num_row lp"
    and "matrix_exactResize (a_matrix lp) = Inr m"
  shows "\<exists>lp'. exactResize matrix_exactResize lp = Inr lp' \<and>
           int (length (col_cost lp')) = num_col lp \<and>
           int (length (col_lower lp')) = num_col lp \<and>
           int (length (col_upper lp')) = num_col lp \<and>
           int (length (row_lower lp')) = num_row lp \<and>
           int (length (row_upper lp')) = num_row lp \<and>
           (col_names lp = [] \<longrightarrow> col_names lp' = []) \<and>
           (row_names lp = [] \<longrightarrow> row_names lp' = []) \<and>
           (integrality lp = [] \<longrightarrow> integrality lp' = []) \<and>
           (col_names lp \<noteq> [] \<longrightarrow> int (length (col_names lp')) = num_col lp) \<and>
           (row_names lp \<noteq> [] \<longrightarrow> int (length (row_names lp')) = num_row lp) \<and>
           (integrality lp \<noteq> [] \<longrightarrow> int (length (integrality lp')) = num_col lp)"
  using assms
  by (auto simp: exactResize_def bindE_def vec_resize_def Let_def)

theorem exactResize_keeps_untracked_empty_witness:
  "\<exists>lp'. exactResize Inr (empty_lp\<lparr>num_col := 5, num_row := 1, col_cost := [1, 2, 3],
              col_lower := [0, 0, 0], col_upper := [4, 4, 4], row_names := [''r0'', ''r1'']\<rparr>) = Inr lp' \<and>
         col_cost lp' = [1, 2, 3, 0, 0] \<and> length (col_lower lp') = 5 \<and> length (col_upper lp') = 5 \<and>
         length (row_lower lp') = 1 \<and> length (row_upper lp') = 1 \<and>
         col_names lp' = [] \<and> integrality lp' = [] \<and> length (row_names lp') = 1"
  using exactResize_keeps_untracked_empty
          [of "empty_lp\<lparr>num_col := 5, num_row := 1, col_cost := [1, 2, 3],
                col_lower := [0, 0, 0], col_upper := [4, 4, 4], row_names := [''r0'', ''r1'']\<rparr>"
              Inr empty_matrix]
  by (simp add: empty_lp_def exactResize_def bindE_def vec_resize_def Let_def eval_nat_numeral)

section \<open>Applying and unapplying the scale\<close>

lemma for_loop_preserves:
  assumes "for_loop i n body s = Inr s'" and "P s"
    and "\<And>k t t'. P t \<Longrightarrow> body k t = Inr t' \<Longrightarrow> P t'"
  shows "P s'"
  using assms
proof (induction i n body s rule: for_loop.induct)
  case (1 i n body s)
  show ?case
  proof (cases "i < n")
    case False
    with "1.prems" show ?thesis
      by (simp add: for_loop.simps)
  next
    case True
    with "1.prems"(1) obtain t where t: "body i s = Inr t" and rest: "for_loop (i + 1) n body t = Inr s'"
      by (subst (asm) for_loop.simps) (auto split: sum.splits)
    from "1.prems"(3) [OF "1.prems"(2) t] have "P t" .
    with "1.IH" [OF True t rest] "1.prems"(3) show ?thesis by blast
  qed
qed

lemma length_apply_range [simp]: "length (apply_range f i n xs cs) = length xs"
  by (simp add: apply_range_def)

lemma apply_range_empty: "n \<le> i \<Longrightarrow> apply_range f i n xs cs = xs"
  by (auto simp: apply_range_def intro: nth_equalityI)

lemma apply_range_step:
  assumes "0 \<le> i" and "i < n" and "n \<le> int (length xs)"
  shows "apply_range f (i + 1) n (xs[nat i := f (xs ! nat i) (cs ! nat i)]) cs = apply_range f i n xs cs"
proof (rule nth_equalityI)
  show "length (apply_range f (i + 1) n (xs[nat i := f (xs ! nat i) (cs ! nat i)]) cs)
          = length (apply_range f i n xs cs)"
    by simp
next
  fix k
  assume "k < length (apply_range f (i + 1) n (xs[nat i := f (xs ! nat i) (cs ! nat i)]) cs)"
  then have k: "k < length xs" by simp
  show "apply_range f (i + 1) n (xs[nat i := f (xs ! nat i) (cs ! nat i)]) cs ! k
          = apply_range f i n xs cs ! k"
  proof (cases "k = nat i")
    case True
    with assms k show ?thesis
      by (simp add: apply_range_def)
  next
    case False
    with assms k have "(i + 1 \<le> int k) = (i \<le> int k)" by linarith
    with False k show ?thesis
      by (simp add: apply_range_def)
  qed
qed

lemma compound_assign_eq:
  assumes "0 \<le> i" and "i < int (length xs)" and "i < int (length cs)"
  shows "compound_assign f xs cs i = Inr (xs[nat i := f (xs ! nat i) (cs ! nat i)])"
  using assms by (simp add: compound_assign_def bindE_def vec_get_def vec_set_def)

lemma applyScale_col_loop:
  assumes "0 \<le> i" and "n \<le> int (length (col_lower lp))" and "n \<le> int (length (col_upper lp))"
    and "n \<le> int (length (col_cost lp))" and "n \<le> int (length (scale_col (scale lp)))"
  shows "for_loop i n applyScale_col lp =
           Inr (lp\<lparr>col_lower := apply_range (/) i n (col_lower lp) (scale_col (scale lp)),
                   col_upper := apply_range (/) i n (col_upper lp) (scale_col (scale lp)),
                   col_cost := apply_range (*) i n (col_cost lp) (scale_col (scale lp))\<rparr>)"
  using assms
proof (induction i n "applyScale_col :: int \<Rightarrow> rat HighsLp \<Rightarrow> error + rat HighsLp" lp
    rule: for_loop.induct)
  case (1 i n lp)
  let ?c = "scale_col (scale lp)"
  show ?case
  proof (cases "i < n")
    case False
    then show ?thesis
      by (subst for_loop.simps) (simp add: apply_range_empty)
  next
    case True
    let ?lp' = "lp\<lparr>col_lower := (col_lower lp)[nat i := col_lower lp ! nat i / ?c ! nat i],
                    col_upper := (col_upper lp)[nat i := col_upper lp ! nat i / ?c ! nat i],
                    col_cost := (col_cost lp)[nat i := col_cost lp ! nat i * ?c ! nat i]\<rparr>"
    have body: "applyScale_col i lp = Inr ?lp'"
      using True "1.prems" by (simp add: applyScale_col_def compound_assign_eq bindE_def Let_def)
    have "for_loop (i + 1) n applyScale_col ?lp' =
            Inr (?lp'\<lparr>col_lower := apply_range (/) (i + 1) n (col_lower ?lp') (scale_col (scale ?lp')),
                   col_upper := apply_range (/) (i + 1) n (col_upper ?lp') (scale_col (scale ?lp')),
                   col_cost := apply_range (*) (i + 1) n (col_cost ?lp') (scale_col (scale ?lp'))\<rparr>)"
      using "1.prems" by (intro "1.hyps" [OF True body]) simp_all
    with True body "1.prems" show ?thesis
      by (subst for_loop.simps) (simp add: apply_range_step)
  qed
qed

lemma applyScale_row_loop:
  assumes "0 \<le> i" and "n \<le> int (length (row_lower lp))" and "n \<le> int (length (row_upper lp))"
    and "n \<le> int (length (scale_row (scale lp)))"
  shows "for_loop i n applyScale_row lp =
           Inr (lp\<lparr>row_lower := apply_range (*) i n (row_lower lp) (scale_row (scale lp)),
                   row_upper := apply_range (*) i n (row_upper lp) (scale_row (scale lp))\<rparr>)"
  using assms
proof (induction i n "applyScale_row :: int \<Rightarrow> rat HighsLp \<Rightarrow> error + rat HighsLp" lp
    rule: for_loop.induct)
  case (1 i n lp)
  let ?r = "scale_row (scale lp)"
  show ?case
  proof (cases "i < n")
    case False
    then show ?thesis
      by (subst for_loop.simps) (simp add: apply_range_empty)
  next
    case True
    let ?lp' = "lp\<lparr>row_lower := (row_lower lp)[nat i := row_lower lp ! nat i * ?r ! nat i],
                    row_upper := (row_upper lp)[nat i := row_upper lp ! nat i * ?r ! nat i]\<rparr>"
    have body: "applyScale_row i lp = Inr ?lp'"
      using True "1.prems" by (simp add: applyScale_row_def compound_assign_eq bindE_def Let_def)
    have "for_loop (i + 1) n applyScale_row ?lp' =
            Inr (?lp'\<lparr>row_lower := apply_range (*) (i + 1) n (row_lower ?lp') (scale_row (scale ?lp')),
                   row_upper := apply_range (*) (i + 1) n (row_upper ?lp') (scale_row (scale ?lp'))\<rparr>)"
      using "1.prems" by (intro "1.hyps" [OF True body]) simp_all
    with True body "1.prems" show ?thesis
      by (subst for_loop.simps) (simp add: apply_range_step)
  qed
qed







lemma applyScale_scaled:
  assumes "has_scaling (scale lp)" and "\<not> is_scaled lp" and "dims_wf lp"
    and "scale_entries (*) (scale lp) (entries (a_matrix lp)) = Inr es1"
  shows "applyScale lp =
           Inr (lp\<lparr>col_lower := apply_range (/) 0 (num_col lp) (col_lower lp) (scale_col (scale lp)),
                   col_upper := apply_range (/) 0 (num_col lp) (col_upper lp) (scale_col (scale lp)),
                   col_cost := apply_range (*) 0 (num_col lp) (col_cost lp) (scale_col (scale lp)),
                   row_lower := apply_range (*) 0 (num_row lp) (row_lower lp) (scale_row (scale lp)),
                   row_upper := apply_range (*) 0 (num_row lp) (row_upper lp) (scale_row (scale lp)),
                   a_matrix := (a_matrix lp)\<lparr>entries := es1\<rparr>,
                   is_scaled := True\<rparr>)"
proof -
  let ?lp0 = "lp\<lparr>is_scaled := False\<rparr>"
  have col: "for_loop 0 (num_col ?lp0) applyScale_col ?lp0 =
      Inr (?lp0\<lparr>col_lower := apply_range (/) 0 (num_col ?lp0) (col_lower ?lp0) (scale_col (scale ?lp0)),
                   col_upper := apply_range (/) 0 (num_col ?lp0) (col_upper ?lp0) (scale_col (scale ?lp0)),
                   col_cost := apply_range (*) 0 (num_col ?lp0) (col_cost ?lp0) (scale_col (scale ?lp0))\<rparr>)"
    (is "_ = Inr ?a")
    using assms(3) by (intro applyScale_col_loop) (simp_all add: dims_wf_def)
  have row: "for_loop 0 (num_row ?a) applyScale_row ?a =
      Inr (?a\<lparr>row_lower := apply_range (*) 0 (num_row ?a) (row_lower ?a) (scale_row (scale ?a)),
                row_upper := apply_range (*) 0 (num_row ?a) (row_upper ?a) (scale_row (scale ?a))\<rparr>)"
    using assms(3) by (intro applyScale_row_loop) (simp_all add: dims_wf_def)
  show ?thesis
    using assms(1,2,4) col row
    by (simp add: applyScale_def Let_def bindE_def matrix_applyScale_def)
qed



lemma scaled_example_wf:
  "has_scaling (scale scaled_example)" "\<not> is_scaled scaled_example"
  "dims_wf scaled_example" "factors_positive (scale scaled_example)"
  by (simp_all add: scaled_example_def empty_lp_def dims_wf_def factors_positive_def)

lemma applyScale_scaled_example:
  "applyScale scaled_example =
     Inr (scaled_example
            \<lparr> col_cost := [2, 8], col_lower := [0, 1 / 4], col_upper := [2, 3 / 2],
              row_lower := [6], row_upper := [9],
              a_matrix := (a_matrix scaled_example)\<lparr>entries := [(0, 0, 15 / 2), (0, 1, 21 / 4)]\<rparr>,
              is_scaled := True \<rparr>)"
  by (simp add: scaled_example_def empty_lp_def applyScale_def for_loop.simps applyScale_col_def
                applyScale_row_def compound_assign_def matrix_applyScale_def bindE_def vec_get_def
                vec_set_def Let_def)


subsection \<open>The same round trip in \<open>double\<close> arithmetic\<close>

text \<open>
  The exponent and the rounding of the \<open>double\<close> model are the intended ones, and
  three operations evaluate as on the machine: \<open>1 / 49\<close> and the product of the
  quotient by 49, which is \<open>1 - 2^-53\<close> and not 1; the quotient of the smallest
  positive value by 16, which is 0; and the product of \<open>2^1023\<close> by 16, which is
  infinity.
\<close>

lemma power_int_two_less_cancel:
  assumes "(2::rat) powi m < 2 powi n"
  shows "m < n"
proof (rule ccontr)
  assume "\<not> m < n"
  then have "n \<le> m" by simp
  then have "(2::rat) powi n \<le> 2 powi m" by (rule power_int_increasing) simp
  with assms show False by simp
qed

lemma floor_log2_bounds:
  assumes "0 < x"
  shows "2 powi floor_log2 x \<le> x \<and> x < 2 powi (floor_log2 x + 1)"
proof -
  obtain p q where pq: "quotient_of x = (p, q)" by (cases "quotient_of x") auto
  then have q: "0 < q" and x: "x = of_int p / of_int q"
    by (simp_all add: quotient_of_denom_pos quotient_of_div)
  with assms have p: "0 < p"
    by (simp add: zero_less_divide_iff)
  let ?a = "bitlen p" and ?b = "bitlen q"
  let ?d = "?a - ?b"
  have a1: "1 \<le> ?a" and b1: "1 \<le> ?b"
    using p q by (simp_all add: bitlen_alt_def)
  from bitlen_bounds [OF p] have ip: "2 ^ nat (?a - 1) \<le> p" "p < 2 ^ nat ?a" by simp_all
  from bitlen_bounds [OF q] have iq: "2 ^ nat (?b - 1) \<le> q" "q < 2 ^ nat ?b" by simp_all
  have pl: "(2::rat) powi (?a - 1) \<le> of_int p"
  proof -
    have "(of_int (2 ^ nat (?a - 1)) :: rat) \<le> of_int p"
      using ip(1) by (simp only: of_int_le_iff)
    then show ?thesis using a1 by (simp add: power_int_nonneg_exp)
  qed
  have pu: "of_int p < (2::rat) powi ?a"
  proof -
    have "(of_int p :: rat) < of_int (2 ^ nat ?a)"
      using ip(2) by (simp only: of_int_less_iff)
    then show ?thesis using a1 by (simp add: power_int_nonneg_exp)
  qed
  have ql: "(2::rat) powi (?b - 1) \<le> of_int q"
  proof -
    have "(of_int (2 ^ nat (?b - 1)) :: rat) \<le> of_int q"
      using iq(1) by (simp only: of_int_le_iff)
    then show ?thesis using b1 by (simp add: power_int_nonneg_exp)
  qed
  have qu: "of_int q < (2::rat) powi ?b"
  proof -
    have "(of_int q :: rat) < of_int (2 ^ nat ?b)"
      using iq(2) by (simp only: of_int_less_iff)
    then show ?thesis using b1 by (simp add: power_int_nonneg_exp)
  qed
  have upper: "x < 2 powi (?d + 1)"
  proof -
    have "of_int p / of_int q < (2::rat) powi ?a / 2 powi (?b - 1)"
      using p pu ql by (intro frac_less) simp_all
    also have "(2::rat) powi ?a / 2 powi (?b - 1) = 2 powi (?a - (?b - 1))"
      by (simp add: power_int_diff)
    also have "?a - (?b - 1) = ?d + 1" by simp
    finally show ?thesis using x by simp
  qed
  have lower: "2 powi (?d - 1) < x"
  proof -
    have "(2::rat) powi (?a - 1) / 2 powi ?b < of_int p / of_int q"
      using q pl qu by (intro frac_less2) simp_all
    moreover have "(2::rat) powi (?a - 1) / 2 powi ?b = 2 powi (?a - 1 - ?b)"
      by (simp add: power_int_diff)
    moreover have "?a - 1 - ?b = ?d - 1" by simp
    ultimately show ?thesis using x by simp
  qed
  show ?thesis
  proof (cases "2 powi ?d \<le> x")
    case True
    with pq have "floor_log2 x = ?d" by (simp add: floor_log2_def)
    with True upper show ?thesis by simp
  next
    case False
    with pq have "floor_log2 x = ?d - 1" by (simp add: floor_log2_def)
    with False lower show ?thesis by simp
  qed
qed

lemma floor_log2_eq:
  assumes "2 powi e \<le> x" and "x < 2 powi (e + 1)"
  shows "floor_log2 x = e"
proof -
  have "(0::rat) < 2 powi e" by simp
  then have "0 < x" using assms(1) by (rule less_le_trans)
  from floor_log2_bounds [OF this]
  have b: "2 powi floor_log2 x \<le> x" "x < 2 powi (floor_log2 x + 1)" by simp_all
  from b(1) assms(2) have "(2::rat) powi floor_log2 x < 2 powi (e + 1)" by (rule le_less_trans)
  then have "floor_log2 x < e + 1" by (rule power_int_two_less_cancel)
  moreover from assms(1) b(2) have "(2::rat) powi e < 2 powi (floor_log2 x + 1)" by (rule le_less_trans)
  then have "e < floor_log2 x + 1" by (rule power_int_two_less_cancel)
  ultimately show ?thesis by simp
qed

lemma round_half_even_nearest:
  assumes "\<bar>q - of_int n\<bar> < 1 / 2"
  shows "round_half_even q = n"
proof (cases "of_int n \<le> q")
  case True
  with assms have "q < of_int n + 1" by simp
  with True have "\<lfloor>q\<rfloor> = n" by (intro floor_unique) simp_all
  with assms True show ?thesis
    by (simp add: round_half_even_def Let_def)
next
  case False
  with assms have "of_int (n - 1) \<le> q" "q < of_int (n - 1) + 1" by simp_all
  then have fl: "\<lfloor>q\<rfloor> = n - 1" by (rule floor_unique)
  from False assms have "1 / 2 < q - of_int (n - 1)" by simp
  with fl show ?thesis
    by (simp add: round_half_even_def Let_def)
qed

lemma round_half_even_tie:
  assumes "q = of_int n + 1 / 2"
  shows "round_half_even q = (if even n then n else n + 1)"
proof -
  from assms have "of_int n \<le> q" "q < of_int n + 1" by simp_all
  then have "\<lfloor>q\<rfloor> = n" by (rule floor_unique)
  with assms show ?thesis
    by (simp add: round_half_even_def Let_def)
qed

lemma double_div_one_by_49:
  "double_div (Finite False 1) (Finite False 49) = Finite False (5882252574524729 / 2 ^ 58)"
proof -
  have e: "floor_log2 (1 / 49) = - 6"
    by (rule floor_log2_eq) simp_all
  have n: "round_half_even (1 / 49 / 2 powi (max (- 6) (- 1022) - 52)) = 5882252574524729"
    by (rule round_half_even_nearest) simp
  show ?thesis
    unfolding double_div.simps double_round_def round_to_grid_def e Let_def n
    by simp
qed

lemma double_mul_back_by_49:
  "double_mul (Finite False (5882252574524729 / 2 ^ 58)) (Finite False 49)
     = Finite False (1 - 1 / 2 ^ 53)"
proof -
  have e: "floor_log2 (5882252574524729 / 2 ^ 58 * 49) = - 1"
    by (rule floor_log2_eq) simp_all
  have n: "round_half_even (5882252574524729 / 2 ^ 58 * 49 / 2 powi (max (- 1) (- 1022) - 52))
             = 9007199254740991"
    by (rule round_half_even_nearest) simp
  show ?thesis
    unfolding double_mul.simps double_round_def round_to_grid_def e Let_def n
    by simp
qed

lemma double_div_underflow:
  "double_div (Finite False (1 / 2 ^ 1074)) (Finite False 16) = Finite False 0"
proof -
  have e: "floor_log2 (1 / 2 ^ 1074 / 16) = - 1078"
    by (rule floor_log2_eq) simp_all
  have n: "round_half_even (1 / 2 ^ 1074 / 16 / 2 powi (max (- 1078) (- 1022) - 52)) = 0"
    by (rule round_half_even_nearest) simp
  show ?thesis
    unfolding double_div.simps double_round_def round_to_grid_def e Let_def n
    by simp
qed

lemma double_mul_overflow:
  "double_mul (Finite False (2 ^ 1023)) (Finite False 16) = Infinity False"
  by (simp add: double_round_def)


subsection \<open>Idempotence\<close>

lemma applyScale_col_scale: "applyScale_col k t = Inr t' \<Longrightarrow> scale t' = scale t"
  by (auto simp: applyScale_col_def bindE_def Let_def split: sum.splits)

lemma applyScale_row_scale: "applyScale_row k t = Inr t' \<Longrightarrow> scale t' = scale t"
  by (auto simp: applyScale_row_def bindE_def Let_def split: sum.splits)

lemma scale_entries_defined:
  assumes "\<forall>e \<in> set es. 0 \<le> fst e \<and> fst e < int (length (scale_row sc)) \<and>
                          0 \<le> fst (snd e) \<and> fst (snd e) < int (length (scale_col sc))"
  shows "\<exists>es1. scale_entries f sc es = Inr es1"
  using assms
proof (induction es)
  case Nil
  show ?case by simp
next
  case (Cons e es)
  obtain i j v where e: "e = (i, j, v)" by (cases e) auto
  from Cons obtain es1 where "scale_entries f sc es = Inr es1" by auto
  with Cons.prems e show ?case
    by (simp add: bindE_def vec_get_def)
qed

lemma applyScale_second_call:
  assumes "is_scaled lp \<longrightarrow> has_scaling (scale lp)" and "applyScale lp = Inr lp1"
  shows "applyScale lp1 = Inr lp1"
proof (cases "is_scaled lp")
  case True
  with assms show ?thesis
    by (auto simp: applyScale_def split: if_splits)
next
  case False
  note unscaled = this
  show ?thesis
  proof (cases "has_scaling (scale lp)")
    case False
    with unscaled assms(2) have "lp1 = lp\<lparr>is_scaled := False\<rparr>"
      by (simp add: applyScale_def Let_def)
    with False show ?thesis
      by (simp add: applyScale_def Let_def)
  next
    case True
    let ?lp0 = "lp\<lparr>is_scaled := False\<rparr>"
    from unscaled True assms(2) obtain a b m where
      a: "for_loop 0 (num_col ?lp0) applyScale_col ?lp0 = Inr a" and
      b: "for_loop 0 (num_row a) applyScale_row a = Inr b" and
      lp1: "lp1 = b\<lparr>a_matrix := m, is_scaled := True\<rparr>"
      by (auto simp: applyScale_def Let_def bindE_def split: sum.splits)
    have "scale a = scale ?lp0"
      by (rule for_loop_preserves [OF a, where P = "\<lambda>t. scale t = scale ?lp0"])
         (simp_all add: applyScale_col_scale)
    moreover have "scale b = scale a"
      by (rule for_loop_preserves [OF b, where P = "\<lambda>t. scale t = scale a"])
         (simp_all add: applyScale_row_scale)
    ultimately have "has_scaling (scale lp1)"
      using True lp1 by simp
    with lp1 show ?thesis
      by (simp add: applyScale_def)
  qed
qed

lemma applyScale_defined:
  assumes "is_scaled lp \<longrightarrow> has_scaling (scale lp)" and "dims_wf lp"
  shows "\<exists>lp1. applyScale lp = Inr lp1"
proof (cases "\<not> is_scaled lp \<and> has_scaling (scale lp)")
  case False
  with assms(1) show ?thesis
    by (auto simp: applyScale_def Let_def)
next
  case True
  have "\<forall>e \<in> set (entries (a_matrix lp)).
          0 \<le> fst e \<and> fst e < int (length (scale_row (scale lp))) \<and>
          0 \<le> fst (snd e) \<and> fst (snd e) < int (length (scale_col (scale lp)))"
    using assms(2) by (simp add: dims_wf_def)
  from scale_entries_defined [OF this] obtain es1 where
    "scale_entries (*) (scale lp) (entries (a_matrix lp)) = Inr es1" by blast
  with True assms(2) show ?thesis
    using applyScale_scaled [of lp es1] by simp
qed

text \<open>
  C8: for a model on which \<open>is_scaled\<close> implies \<open>has_scaling\<close>, a second call of
  \<open>applyScale\<close> right after a first one returns the state the first call left, with no
  field changed; and on a model with well-formed dimensions the first call does return.
\<close>

theorem applyScale_idempotent:
  assumes "is_scaled lp \<longrightarrow> has_scaling (scale lp)"
  shows "(\<forall>lp1. applyScale lp = Inr lp1 \<longrightarrow> applyScale lp1 = Inr lp1) \<and>
         (dims_wf lp \<longrightarrow> (\<exists>lp1. applyScale lp = Inr lp1 \<and> applyScale lp1 = Inr lp1))"
  using assms applyScale_second_call applyScale_defined by blast

theorem applyScale_idempotent_witness:
  "\<exists>lp1. applyScale scaled_example = Inr lp1 \<and> col_lower lp1 = [0, 1 / 4] \<and>
         applyScale lp1 = Inr lp1"
  using applyScale_idempotent [of scaled_example] scaled_example_wf applyScale_scaled_example
  by auto

section \<open>Restoring the journal\<close>

lemma length_restore_types [simp]: "length (restore_types idx tys) = length tys"
  by (induction idx arbitrary: tys) simp_all

lemma length_write_back [simp]: "length (write_back es xs) = length xs"
  by (induction es xs rule: write_back.induct) simp_all

lemma drop_zip_step:
  assumes "k < length idx" and "length vs = length idx"
  shows "drop k (zip idx vs) = (idx ! k, vs ! k) # drop (Suc k) (zip idx vs)"
proof -
  from assms have "k < length (zip idx vs)" by simp
  then have "drop k (zip idx vs) = zip idx vs ! k # drop (Suc k) (zip idx vs)"
    by (rule Cons_nth_drop_Suc [symmetric])
  with assms show ?thesis by simp
qed

lemma in_range_nth: "in_range idx xs \<Longrightarrow> k < length idx \<Longrightarrow> 0 \<le> idx ! k \<and> idx ! k < int (length xs)"
  by (simp add: in_range_def)

lemma semi_at_nth:
  "semi_at idx tys \<Longrightarrow> k < length idx \<Longrightarrow>
     0 \<le> idx ! k \<and> idx ! k < int (length tys) \<and>
     (tys ! nat (idx ! k) = kSemiContinuous \<or> tys ! nat (idx ! k) = kSemiInteger)"
  by (simp add: semi_at_def)

lemma restore_non_semi_loop:
  assumes "0 \<le> k" and "n = int (length (save_non_semi_variable_index (mods lp)))"
    and "non_semi_ok (drop (nat k) (save_non_semi_variable_index (mods lp))) (integrality lp)"
  shows "for_loop k n restore_non_semi lp =
           Inr (lp\<lparr>integrality :=
                   restore_types (drop (nat k) (save_non_semi_variable_index (mods lp)))
                     (integrality lp)\<rparr>)"
  using assms
proof (induction k n "restore_non_semi" lp rule: for_loop.induct)
  case (1 k n lp)
  let ?idx = "save_non_semi_variable_index (mods lp)"
  show ?case
  proof (cases "k < n")
    case False
    with "1.prems" show ?thesis
      by (subst for_loop.simps) simp
  next
    case True
    let ?iCol = "?idx ! nat k"
    let ?tys = "integrality lp"
    from True "1.prems" have k: "nat k < length ?idx" by simp
    then have drop: "drop (nat k) ?idx = ?iCol # drop (Suc (nat k)) ?idx"
      by (simp add: Cons_nth_drop_Suc)
    with "1.prems"(3) have ok: "0 \<le> ?iCol" "?iCol < int (length ?tys)"
      "?tys ! nat ?iCol = kContinuous \<or> ?tys ! nat ?iCol = kInteger"
      "non_semi_ok (drop (Suc (nat k)) ?idx) (?tys[nat ?iCol := infer_semi (?tys ! nat ?iCol)])"
      by simp_all
    let ?lp' = "lp\<lparr>integrality := ?tys[nat ?iCol := infer_semi (?tys ! nat ?iCol)]\<rparr>"
    have body: "restore_non_semi k lp = Inr ?lp'"
      using True "1.prems"(1,2) k ok(1,2,3)
      by (auto simp: restore_non_semi_def bindE_def vec_get_def vec_set_def)
    have suc: "nat (k + 1) = Suc (nat k)"
      using "1.prems"(1) by simp
    have "for_loop (k + 1) n restore_non_semi ?lp' =
            Inr (?lp'\<lparr>integrality :=
                   restore_types (drop (nat (k + 1)) (save_non_semi_variable_index (mods ?lp')))
                     (integrality ?lp')\<rparr>)"
      using "1.prems"(1,2) ok(4) by (intro "1.hyps" [OF True body]) (simp_all add: suc)
    with True body show ?thesis
      by (subst for_loop.simps) (simp add: drop suc)
  qed
qed

lemma restore_inconsistent_semi_loop:
  assumes "0 \<le> k" and "n = int (length (save_inconsistent_semi_variable_index (mods lp)))"
    and "length (save_inconsistent_semi_variable_lower_bound_value (mods lp))
           = length (save_inconsistent_semi_variable_index (mods lp))"
    and "length (save_inconsistent_semi_variable_upper_bound_value (mods lp))
           = length (save_inconsistent_semi_variable_index (mods lp))"
    and "length (save_inconsistent_semi_variable_type (mods lp))
           = length (save_inconsistent_semi_variable_index (mods lp))"
    and "in_range (save_inconsistent_semi_variable_index (mods lp)) (col_lower lp)"
    and "in_range (save_inconsistent_semi_variable_index (mods lp)) (col_upper lp)"
    and "in_range (save_inconsistent_semi_variable_index (mods lp)) (integrality lp)"
  shows "for_loop k n restore_inconsistent_semi lp =
           Inr (lp\<lparr>col_lower :=
                     write_back (drop (nat k) (zip (save_inconsistent_semi_variable_index (mods lp))
                        (save_inconsistent_semi_variable_lower_bound_value (mods lp)))) (col_lower lp),
                   col_upper :=
                     write_back (drop (nat k) (zip (save_inconsistent_semi_variable_index (mods lp))
                        (save_inconsistent_semi_variable_upper_bound_value (mods lp)))) (col_upper lp),
                   integrality :=
                     write_back (drop (nat k) (zip (save_inconsistent_semi_variable_index (mods lp))
                        (save_inconsistent_semi_variable_type (mods lp)))) (integrality lp)\<rparr>)"
  using assms
proof (induction k n "restore_inconsistent_semi" lp rule: for_loop.induct)
  case (1 k n lp)
  let ?idx = "save_inconsistent_semi_variable_index (mods lp)"
  let ?lo = "save_inconsistent_semi_variable_lower_bound_value (mods lp)"
  let ?up = "save_inconsistent_semi_variable_upper_bound_value (mods lp)"
  let ?ty = "save_inconsistent_semi_variable_type (mods lp)"
  show ?case
  proof (cases "k < n")
    case False
    with "1.prems" show ?thesis
      by (subst for_loop.simps) simp
  next
    case True
    let ?iCol = "?idx ! nat k"
    from True "1.prems" have k: "nat k < length ?idx" by simp
    note rng = in_range_nth [OF "1.prems"(6) k] in_range_nth [OF "1.prems"(7) k]
               in_range_nth [OF "1.prems"(8) k]
    let ?lp' = "lp\<lparr>col_lower := (col_lower lp)[nat ?iCol := ?lo ! nat k],
                    col_upper := (col_upper lp)[nat ?iCol := ?up ! nat k],
                    integrality := (integrality lp)[nat ?iCol := ?ty ! nat k]\<rparr>"
    have body: "restore_inconsistent_semi k lp = Inr ?lp'"
      using True "1.prems"(1-5) k rng
      by (simp add: restore_inconsistent_semi_def bindE_def vec_get_def vec_set_def Let_def)
    have suc: "nat (k + 1) = Suc (nat k)"
      using "1.prems"(1) by simp
    have "for_loop (k + 1) n restore_inconsistent_semi ?lp' =
           Inr (?lp'\<lparr>col_lower :=
                     write_back (drop (nat (k + 1)) (zip (save_inconsistent_semi_variable_index (mods ?lp'))
                        (save_inconsistent_semi_variable_lower_bound_value (mods ?lp')))) (col_lower ?lp'),
                   col_upper :=
                     write_back (drop (nat (k + 1)) (zip (save_inconsistent_semi_variable_index (mods ?lp'))
                        (save_inconsistent_semi_variable_upper_bound_value (mods ?lp')))) (col_upper ?lp'),
                   integrality :=
                     write_back (drop (nat (k + 1)) (zip (save_inconsistent_semi_variable_index (mods ?lp'))
                        (save_inconsistent_semi_variable_type (mods ?lp')))) (integrality ?lp')\<rparr>)"
      using "1.prems" by (intro "1.hyps" [OF True body]) (simp_all add: in_range_def)
    with True body k "1.prems"(3-5) show ?thesis
      by (subst for_loop.simps) (simp add: drop_zip_step suc)
  qed
qed

lemma restore_relaxed_lower_loop:
  assumes "0 \<le> k" and "n = int (length (save_relaxed_semi_variable_lower_bound_index (mods lp)))"
    and "length (save_relaxed_semi_variable_lower_bound_value (mods lp))
           = length (save_relaxed_semi_variable_lower_bound_index (mods lp))"
    and "in_range (save_relaxed_semi_variable_lower_bound_index (mods lp)) (col_lower lp)"
    and "semi_at (save_relaxed_semi_variable_lower_bound_index (mods lp)) (integrality lp)"
  shows "for_loop k n restore_relaxed_lower lp =
           Inr (lp\<lparr>col_lower :=
                     write_back (drop (nat k) (zip (save_relaxed_semi_variable_lower_bound_index (mods lp))
                        (save_relaxed_semi_variable_lower_bound_value (mods lp)))) (col_lower lp)\<rparr>)"
  using assms
proof (induction k n "restore_relaxed_lower" lp rule: for_loop.induct)
  case (1 k n lp)
  let ?idx = "save_relaxed_semi_variable_lower_bound_index (mods lp)"
  let ?val = "save_relaxed_semi_variable_lower_bound_value (mods lp)"
  show ?case
  proof (cases "k < n")
    case False
    with "1.prems" show ?thesis
      by (subst for_loop.simps) simp
  next
    case True
    let ?iCol = "?idx ! nat k"
    from True "1.prems" have k: "nat k < length ?idx" by simp
    note rng = in_range_nth [OF "1.prems"(4) k] semi_at_nth [OF "1.prems"(5) k]
    let ?lp' = "lp\<lparr>col_lower := (col_lower lp)[nat ?iCol := ?val ! nat k]\<rparr>"
    have body: "restore_relaxed_lower k lp = Inr ?lp'"
      using True "1.prems"(1-3) k rng
      by (auto simp: restore_relaxed_lower_def bindE_def vec_get_def vec_set_def)
    have suc: "nat (k + 1) = Suc (nat k)"
      using "1.prems"(1) by simp
    have "for_loop (k + 1) n restore_relaxed_lower ?lp' =
           Inr (?lp'\<lparr>col_lower :=
                     write_back (drop (nat (k + 1)) (zip (save_relaxed_semi_variable_lower_bound_index (mods ?lp'))
                        (save_relaxed_semi_variable_lower_bound_value (mods ?lp')))) (col_lower ?lp')\<rparr>)"
      using "1.prems" by (intro "1.hyps" [OF True body]) (simp_all add: in_range_def)
    with True body k "1.prems"(3) show ?thesis
      by (subst for_loop.simps) (simp add: drop_zip_step suc)
  qed
qed

lemma restore_tightened_upper_loop:
  assumes "0 \<le> k" and "n = int (length (save_tightened_semi_variable_upper_bound_index (mods lp)))"
    and "length (save_tightened_semi_variable_upper_bound_value (mods lp))
           = length (save_tightened_semi_variable_upper_bound_index (mods lp))"
    and "in_range (save_tightened_semi_variable_upper_bound_index (mods lp)) (col_upper lp)"
    and "semi_at (save_tightened_semi_variable_upper_bound_index (mods lp)) (integrality lp)"
  shows "for_loop k n restore_tightened_upper lp =
           Inr (lp\<lparr>col_upper :=
                     write_back (drop (nat k) (zip (save_tightened_semi_variable_upper_bound_index (mods lp))
                        (save_tightened_semi_variable_upper_bound_value (mods lp)))) (col_upper lp)\<rparr>)"
  using assms
proof (induction k n "restore_tightened_upper" lp rule: for_loop.induct)
  case (1 k n lp)
  let ?idx = "save_tightened_semi_variable_upper_bound_index (mods lp)"
  let ?val = "save_tightened_semi_variable_upper_bound_value (mods lp)"
  show ?case
  proof (cases "k < n")
    case False
    with "1.prems" show ?thesis
      by (subst for_loop.simps) simp
  next
    case True
    let ?iCol = "?idx ! nat k"
    from True "1.prems" have k: "nat k < length ?idx" by simp
    note rng = in_range_nth [OF "1.prems"(4) k] semi_at_nth [OF "1.prems"(5) k]
    let ?lp' = "lp\<lparr>col_upper := (col_upper lp)[nat ?iCol := ?val ! nat k]\<rparr>"
    have body: "restore_tightened_upper k lp = Inr ?lp'"
      using True "1.prems"(1-3) k rng
      by (auto simp: restore_tightened_upper_def bindE_def vec_get_def vec_set_def)
    have suc: "nat (k + 1) = Suc (nat k)"
      using "1.prems"(1) by simp
    have "for_loop (k + 1) n restore_tightened_upper ?lp' =
           Inr (?lp'\<lparr>col_upper :=
                     write_back (drop (nat (k + 1)) (zip (save_tightened_semi_variable_upper_bound_index (mods ?lp'))
                        (save_tightened_semi_variable_upper_bound_value (mods ?lp')))) (col_upper ?lp')\<rparr>)"
      using "1.prems" by (intro "1.hyps" [OF True body]) (simp_all add: in_range_def)
    with True body k "1.prems"(3) show ?thesis
      by (subst for_loop.simps) (simp add: drop_zip_step suc)
  qed
qed

lemma unapplyMods_eq_restore_spec:
  assumes "restore_pre lp"
  shows "unapplyMods lp = Inr (restore_spec lp)"
proof -
  let ?m = "mods lp"
  let ?idx1 = "save_non_semi_variable_index ?m"
  let ?idx2 = "save_inconsistent_semi_variable_index ?m"
  let ?lo2 = "save_inconsistent_semi_variable_lower_bound_value ?m"
  let ?up2 = "save_inconsistent_semi_variable_upper_bound_value ?m"
  let ?ty2 = "save_inconsistent_semi_variable_type ?m"
  let ?idx3 = "save_relaxed_semi_variable_lower_bound_index ?m"
  let ?val3 = "save_relaxed_semi_variable_lower_bound_value ?m"
  let ?idx4 = "save_tightened_semi_variable_upper_bound_index ?m"
  let ?val4 = "save_tightened_semi_variable_upper_bound_value ?m"
  let ?tys1 = "restore_types ?idx1 (integrality lp)"
  let ?tys2 = "write_back (zip ?idx2 ?ty2) ?tys1"
  let ?lo2' = "write_back (zip ?idx2 ?lo2) (col_lower lp)"
  let ?up2' = "write_back (zip ?idx2 ?up2) (col_upper lp)"
  from assms have pre:
    "non_semi_ok ?idx1 (integrality lp)"
    "length ?lo2 = length ?idx2" "length ?up2 = length ?idx2" "length ?ty2 = length ?idx2"
    "in_range ?idx2 (col_lower lp)" "in_range ?idx2 (col_upper lp)" "in_range ?idx2 (integrality lp)"
    "length ?val3 = length ?idx3" "in_range ?idx3 (col_lower lp)" "semi_at ?idx3 ?tys2"
    "length ?val4 = length ?idx4" "in_range ?idx4 (col_upper lp)" "semi_at ?idx4 ?tys2"
    by (simp_all add: restore_pre_def Let_def)
  define s1 where "s1 = lp\<lparr>integrality := ?tys1\<rparr>"
  have l1: "for_loop 0 (int (length ?idx1)) restore_non_semi lp = Inr s1"
    unfolding s1_def using restore_non_semi_loop [of 0 "int (length ?idx1)" lp] pre(1) by simp
  have m1: "mods s1 = ?m" "col_lower s1 = col_lower lp" "col_upper s1 = col_upper lp"
    "integrality s1 = ?tys1"
    by (simp_all add: s1_def)
  define s2 where "s2 = s1\<lparr>col_lower := ?lo2', col_upper := ?up2', integrality := ?tys2\<rparr>"
  have l2: "for_loop 0 (int (length ?idx2)) restore_inconsistent_semi s1 = Inr s2"
    unfolding s2_def
    using restore_inconsistent_semi_loop [of 0 "int (length ?idx2)" s1] pre(2-7)
    by (simp add: m1 in_range_def)
  have m2: "mods s2 = ?m" "col_lower s2 = ?lo2'" "col_upper s2 = ?up2'" "integrality s2 = ?tys2"
    by (simp_all add: s2_def m1)
  define s3 where "s3 = s2\<lparr>col_lower := write_back (zip ?idx3 ?val3) ?lo2'\<rparr>"
  have l3: "for_loop 0 (int (length ?idx3)) restore_relaxed_lower s2 = Inr s3"
    unfolding s3_def
    using restore_relaxed_lower_loop [of 0 "int (length ?idx3)" s2] pre(8-10)
    by (simp add: m2 in_range_def)
  have m3: "mods s3 = ?m" "col_upper s3 = ?up2'" "integrality s3 = ?tys2"
    by (simp_all add: s3_def m2)
  define s4 where "s4 = s3\<lparr>col_upper := write_back (zip ?idx4 ?val4) ?up2'\<rparr>"
  have l4: "for_loop 0 (int (length ?idx4)) restore_tightened_upper s3 = Inr s4"
    unfolding s4_def
    using restore_tightened_upper_loop [of 0 "int (length ?idx4)" s3] pre(11-13)
    by (simp add: m3 in_range_def)
  have m4: "mods s4 = ?m"
    by (simp add: s4_def m3)
  have emp: "?lo2 = [] \<longleftrightarrow> ?idx2 = []" "?up2 = [] \<longleftrightarrow> ?idx2 = []" "?ty2 = [] \<longleftrightarrow> ?idx2 = []"
    "?val3 = [] \<longleftrightarrow> ?idx3 = []" "?val4 = [] \<longleftrightarrow> ?idx4 = []"
    using pre(2-4,8,11) by (metis length_0_conv)+
  have "unapplyMods lp = Inr (s4\<lparr>mods := mods_clear ?m\<rparr>)"
    unfolding unapplyMods_def Let_def
    by (simp add: bindE_def l1 l2 l3 l4 m1 m2 m3 m4 emp)
  also have "s4\<lparr>mods := mods_clear ?m\<rparr> = restore_spec lp"
    by (simp add: restore_spec_def Let_def s4_def s3_def s2_def s1_def)
  finally show ?thesis .
qed

lemma all_logs_empty_mods_clear: "all_logs_empty (mods_clear m)"
  by (simp add: all_logs_empty_def mods_clear_def)

lemma isClear_mods_clear: "isClear (mods_clear m)"
  by (simp add: isClear_def mods_clear_def)

lemma mods_restore_spec: "mods (restore_spec lp) = mods_clear (mods lp)"
  by (simp add: restore_spec_def Let_def)

subsection \<open>What each column holds after the restore\<close>

lemma write_back_nth_other:
  "\<forall>e \<in> set es. nat (fst e) \<noteq> i \<Longrightarrow> write_back es xs ! i = xs ! i"
  by (induction es xs rule: write_back.induct) simp_all

lemma write_back_nth_saved:
  assumes "distinct (map fst es)" and "\<forall>e \<in> set es. 0 \<le> fst e \<and> fst e < int (length xs)"
    and "(j, v) \<in> set es"
  shows "write_back es xs ! nat j = v"
  using assms
proof (induction es xs rule: write_back.induct)
  case (1 xs)
  then show ?case by simp
next
  case (2 iCol w rest xs)
  show ?case
  proof (cases "(j, v) = (iCol, w)")
    case True
    have "\<forall>e \<in> set rest. nat (fst e) \<noteq> nat j"
    proof
      fix e assume e: "e \<in> set rest"
      with "2.prems"(1) True have "fst e \<noteq> j" by force
      moreover from e "2.prems"(2) have "0 \<le> fst e" by simp
      moreover from True "2.prems"(2) have "0 \<le> j" by simp
      ultimately show "nat (fst e) \<noteq> nat j" by simp
    qed
    then have "write_back rest (xs[nat iCol := w]) ! nat j = (xs[nat iCol := w]) ! nat j"
      by (rule write_back_nth_other)
    moreover from "2.prems"(2) have "nat iCol < length xs" by (simp add: nat_less_iff)
    ultimately show ?thesis using True by simp
  next
    case False
    with "2.prems" have "write_back rest (xs[nat iCol := w]) ! nat j = v"
      by (intro "2.IH") auto
    then show ?thesis by simp
  qed
qed

lemma write_back_zip_saved:
  assumes "distinct idx" and "length vs = length idx" and "in_range idx xs" and "k < length idx"
  shows "write_back (zip idx vs) xs ! nat (idx ! k) = vs ! k"
proof (rule write_back_nth_saved)
  show "distinct (map fst (zip idx vs))"
    using assms(1,2) by simp
  show "\<forall>e \<in> set (zip idx vs). 0 \<le> fst e \<and> fst e < int (length xs)"
    using assms(3) by (auto simp: in_range_def dest: set_zip_leftD)
  show "(idx ! k, vs ! k) \<in> set (zip idx vs)"
    using assms(2,4) by (auto simp: set_zip)
qed

lemma write_back_zip_other:
  assumes "iCol \<notin> set idx" and "0 \<le> iCol" and "\<forall>j \<in> set idx. 0 \<le> j"
  shows "write_back (zip idx vs) xs ! nat iCol = xs ! nat iCol"
proof (rule write_back_nth_other)
  show "\<forall>e \<in> set (zip idx vs). nat (fst e) \<noteq> nat iCol"
  proof
    fix e assume e: "e \<in> set (zip idx vs)"
    obtain a b where "e = (a, b)" by (cases e) auto
    with e have "fst e \<in> set idx" by (auto dest: set_zip_leftD)
    with assms show "nat (fst e) \<noteq> nat iCol" by (auto simp: eq_nat_nat_iff)
  qed
qed

lemma restore_types_nth_other:
  "\<forall>j \<in> set idx. nat j \<noteq> i \<Longrightarrow> restore_types idx tys ! i = tys ! i"
  by (induction idx tys rule: restore_types.induct) simp_all

lemma restore_types_nth_inferred:
  assumes "distinct idx" and "\<forall>j \<in> set idx. 0 \<le> j \<and> j < int (length tys)" and "iCol \<in> set idx"
  shows "restore_types idx tys ! nat iCol = infer_semi (tys ! nat iCol)"
  using assms
proof (induction idx tys rule: restore_types.induct)
  case (1 tys)
  then show ?case by simp
next
  case (2 j rest tys)
  show ?case
  proof (cases "iCol = j")
    case True
    have "\<forall>i \<in> set rest. nat i \<noteq> nat iCol"
    proof
      fix i assume i: "i \<in> set rest"
      with "2.prems"(1) True have "i \<noteq> iCol" by auto
      moreover from i "2.prems"(2) have "0 \<le> i" by simp
      moreover from True "2.prems"(2) have "0 \<le> iCol" by simp
      ultimately show "nat i \<noteq> nat iCol" by simp
    qed
    then have "restore_types rest (tys[nat j := infer_semi (tys ! nat j)]) ! nat iCol
                 = (tys[nat j := infer_semi (tys ! nat j)]) ! nat iCol"
      by (rule restore_types_nth_other)
    moreover from "2.prems"(2) have "nat j < length tys" by (simp add: nat_less_iff)
    ultimately show ?thesis using True by simp
  next
    case False
    with "2.prems" have "0 \<le> iCol" "0 \<le> j" "iCol \<in> set rest" by auto
    with False have ne: "nat j \<noteq> nat iCol" by simp
    have "restore_types rest (tys[nat j := infer_semi (tys ! nat j)]) ! nat iCol
            = infer_semi ((tys[nat j := infer_semi (tys ! nat j)]) ! nat iCol)"
      using "2.prems" \<open>iCol \<in> set rest\<close> by (intro "2.IH") simp_all
    with ne show ?thesis by simp
  qed
qed

lemma non_semi_ok_in_range: "non_semi_ok idx tys \<Longrightarrow> in_range idx tys"
  by (induction idx tys rule: non_semi_ok.induct) (simp_all add: in_range_def)

lemma non_semi_ok_original_type:
  assumes "non_semi_ok idx tys" and "distinct idx" and "iCol \<in> set idx"
  shows "tys ! nat iCol = kContinuous \<or> tys ! nat iCol = kInteger"
  using assms
proof (induction idx tys rule: non_semi_ok.induct)
  case (1 tys)
  then show ?case by simp
next
  case (2 j rest tys)
  show ?case
  proof (cases "iCol = j")
    case True
    with "2.prems"(1) show ?thesis by simp
  next
    case False
    with "2.prems" have rest: "iCol \<in> set rest" "distinct rest"
      "non_semi_ok rest (tys[nat j := infer_semi (tys ! nat j)])" by auto
    then have "in_range rest (tys[nat j := infer_semi (tys ! nat j)])"
      by (simp add: non_semi_ok_in_range)
    with rest(1) have "0 \<le> iCol" by (simp add: in_range_def)
    moreover from "2.prems"(1) have "0 \<le> j" by simp
    ultimately have "nat j \<noteq> nat iCol" using False by (simp add: eq_nat_nat_iff)
    moreover have "(tys[nat j := infer_semi (tys ! nat j)]) ! nat iCol = kContinuous \<or>
                   (tys[nat j := infer_semi (tys ! nat j)]) ! nat iCol = kInteger"
      using rest by (intro "2.IH")
    ultimately show ?thesis by simp
  qed
qed

lemma restore_spec_tightened_upper:
  assumes "restore_pre lp" and "distinct (save_tightened_semi_variable_upper_bound_index (mods lp))"
    and "k < length (save_tightened_semi_variable_upper_bound_index (mods lp))"
  shows "col_upper (restore_spec lp) ! nat (save_tightened_semi_variable_upper_bound_index (mods lp) ! k)
           = save_tightened_semi_variable_upper_bound_value (mods lp) ! k"
  using assms
  by (simp add: restore_spec_def restore_pre_def Let_def write_back_zip_saved in_range_def)

lemma restore_spec_relaxed_lower:
  assumes "restore_pre lp" and "distinct (save_relaxed_semi_variable_lower_bound_index (mods lp))"
    and "k < length (save_relaxed_semi_variable_lower_bound_index (mods lp))"
  shows "col_lower (restore_spec lp) ! nat (save_relaxed_semi_variable_lower_bound_index (mods lp) ! k)
           = save_relaxed_semi_variable_lower_bound_value (mods lp) ! k"
  using assms
  by (simp add: restore_spec_def restore_pre_def Let_def write_back_zip_saved in_range_def)

lemma restore_spec_inconsistent_type:
  assumes "restore_pre lp" and "distinct (save_inconsistent_semi_variable_index (mods lp))"
    and "k < length (save_inconsistent_semi_variable_index (mods lp))"
  shows "integrality (restore_spec lp) ! nat (save_inconsistent_semi_variable_index (mods lp) ! k)
           = save_inconsistent_semi_variable_type (mods lp) ! k"
  using assms
  by (simp add: restore_spec_def restore_pre_def Let_def write_back_zip_saved in_range_def)

lemma restore_spec_inconsistent_lower:
  assumes "restore_pre lp" and "distinct (save_inconsistent_semi_variable_index (mods lp))"
    and "k < length (save_inconsistent_semi_variable_index (mods lp))"
    and "save_inconsistent_semi_variable_index (mods lp) ! k
           \<notin> set (save_relaxed_semi_variable_lower_bound_index (mods lp))"
  shows "col_lower (restore_spec lp) ! nat (save_inconsistent_semi_variable_index (mods lp) ! k)
           = save_inconsistent_semi_variable_lower_bound_value (mods lp) ! k"
proof -
  let ?m = "mods lp"
  let ?idx2 = "save_inconsistent_semi_variable_index ?m"
  let ?idx3 = "save_relaxed_semi_variable_lower_bound_index ?m"
  from assms(1) have pre: "length (save_inconsistent_semi_variable_lower_bound_value ?m) = length ?idx2"
    "in_range ?idx2 (col_lower lp)" "in_range ?idx3 (col_lower lp)"
    by (simp_all add: restore_pre_def Let_def)
  from pre(2) assms(3) have "0 \<le> ?idx2 ! k" by (simp add: in_range_def)
  moreover from pre(3) have "\<forall>j \<in> set ?idx3. 0 \<le> j" by (simp add: in_range_def)
  ultimately show ?thesis
    using assms(2-4) pre(1,2)
    by (simp add: restore_spec_def Let_def write_back_zip_other write_back_zip_saved)
qed

lemma restore_spec_inconsistent_upper:
  assumes "restore_pre lp" and "distinct (save_inconsistent_semi_variable_index (mods lp))"
    and "k < length (save_inconsistent_semi_variable_index (mods lp))"
    and "save_inconsistent_semi_variable_index (mods lp) ! k
           \<notin> set (save_tightened_semi_variable_upper_bound_index (mods lp))"
  shows "col_upper (restore_spec lp) ! nat (save_inconsistent_semi_variable_index (mods lp) ! k)
           = save_inconsistent_semi_variable_upper_bound_value (mods lp) ! k"
proof -
  let ?m = "mods lp"
  let ?idx2 = "save_inconsistent_semi_variable_index ?m"
  let ?idx4 = "save_tightened_semi_variable_upper_bound_index ?m"
  from assms(1) have pre: "length (save_inconsistent_semi_variable_upper_bound_value ?m) = length ?idx2"
    "in_range ?idx2 (col_upper lp)" "in_range ?idx4 (col_upper lp)"
    by (simp_all add: restore_pre_def Let_def)
  from pre(2) assms(3) have "0 \<le> ?idx2 ! k" by (simp add: in_range_def)
  moreover from pre(3) have "\<forall>j \<in> set ?idx4. 0 \<le> j" by (simp add: in_range_def)
  ultimately show ?thesis
    using assms(2-4) pre(1,2)
    by (simp add: restore_spec_def Let_def write_back_zip_other write_back_zip_saved)
qed

lemma restore_spec_non_semi:
  assumes "restore_pre lp" and "distinct (save_non_semi_variable_index (mods lp))"
    and "k < length (save_non_semi_variable_index (mods lp))"
    and "save_non_semi_variable_index (mods lp) ! k
           \<notin> set (save_inconsistent_semi_variable_index (mods lp))"
  shows "(integrality lp ! nat (save_non_semi_variable_index (mods lp) ! k) = kContinuous \<and>
          integrality (restore_spec lp) ! nat (save_non_semi_variable_index (mods lp) ! k)
            = kSemiContinuous) \<or>
         (integrality lp ! nat (save_non_semi_variable_index (mods lp) ! k) = kInteger \<and>
          integrality (restore_spec lp) ! nat (save_non_semi_variable_index (mods lp) ! k)
            = kSemiInteger)"
proof -
  let ?m = "mods lp"
  let ?idx1 = "save_non_semi_variable_index ?m"
  let ?idx2 = "save_inconsistent_semi_variable_index ?m"
  let ?c = "?idx1 ! k"
  from assms(1) have ok: "non_semi_ok ?idx1 (integrality lp)"
    and r2: "in_range ?idx2 (integrality lp)"
    by (simp_all add: restore_pre_def Let_def)
  from assms(3) have mem: "?c \<in> set ?idx1" by simp
  from ok have r1: "in_range ?idx1 (integrality lp)" by (rule non_semi_ok_in_range)
  with mem have c0: "0 \<le> ?c" by (simp add: in_range_def)
  from r2 have "\<forall>j \<in> set ?idx2. 0 \<le> j" by (simp add: in_range_def)
  with assms(4) c0 have "integrality (restore_spec lp) ! nat ?c
      = restore_types ?idx1 (integrality lp) ! nat ?c"
    by (simp add: restore_spec_def Let_def write_back_zip_other)
  also have "\<dots> = infer_semi (integrality lp ! nat ?c)"
    using assms(2) r1 mem by (intro restore_types_nth_inferred) (simp_all add: in_range_def)
  finally have "integrality (restore_spec lp) ! nat ?c = infer_semi (integrality lp ! nat ?c)" .
  moreover have "integrality lp ! nat ?c = kContinuous \<or> integrality lp ! nat ?c = kInteger"
    using ok assms(2) mem by (rule non_semi_ok_original_type)
  ultimately show ?thesis by auto
qed

text \<open>
  C5: when the restore preconditions hold, \<open>unapplyMods\<close> returns, and the model it
  returns is the one the four passes of the specification produce, in their order: type
  downgrades first, then the inconsistent overrides, then the relaxed lower bounds, then
  the tightened upper bounds. Afterwards every sequence of the journal is empty and
  \<open>isClear\<close> holds. For logs without a repeated column, the saved values are what the
  columns hold: a column of log 1 (outside log 2) turns from continuous to
  semi-continuous or from integer to semi-integer; a column of log 2 gets its saved type,
  and its saved bounds unless log 3 or log 4 names it too; a column of log 3 gets its
  saved lower bound and a column of log 4 its saved upper bound.
\<close>

theorem unapplyMods_restores_journal:
  assumes "restore_pre lp"
  shows "\<exists>lp'. unapplyMods lp = Inr lp' \<and> lp' = restore_spec lp \<and>
           all_logs_empty (mods lp') \<and> isClear (mods lp') \<and>
           (distinct (save_non_semi_variable_index (mods lp)) \<longrightarrow>
              (\<forall>k < length (save_non_semi_variable_index (mods lp)).
                 save_non_semi_variable_index (mods lp) ! k
                   \<notin> set (save_inconsistent_semi_variable_index (mods lp)) \<longrightarrow>
                 (integrality lp ! nat (save_non_semi_variable_index (mods lp) ! k) = kContinuous \<and>
                  integrality lp' ! nat (save_non_semi_variable_index (mods lp) ! k) = kSemiContinuous) \<or>
                 (integrality lp ! nat (save_non_semi_variable_index (mods lp) ! k) = kInteger \<and>
                  integrality lp' ! nat (save_non_semi_variable_index (mods lp) ! k) = kSemiInteger))) \<and>
           (distinct (save_inconsistent_semi_variable_index (mods lp)) \<longrightarrow>
              (\<forall>k < length (save_inconsistent_semi_variable_index (mods lp)).
                 integrality lp' ! nat (save_inconsistent_semi_variable_index (mods lp) ! k)
                   = save_inconsistent_semi_variable_type (mods lp) ! k \<and>
                 (save_inconsistent_semi_variable_index (mods lp) ! k
                    \<notin> set (save_relaxed_semi_variable_lower_bound_index (mods lp)) \<longrightarrow>
                  col_lower lp' ! nat (save_inconsistent_semi_variable_index (mods lp) ! k)
                    = save_inconsistent_semi_variable_lower_bound_value (mods lp) ! k) \<and>
                 (save_inconsistent_semi_variable_index (mods lp) ! k
                    \<notin> set (save_tightened_semi_variable_upper_bound_index (mods lp)) \<longrightarrow>
                  col_upper lp' ! nat (save_inconsistent_semi_variable_index (mods lp) ! k)
                    = save_inconsistent_semi_variable_upper_bound_value (mods lp) ! k))) \<and>
           (distinct (save_relaxed_semi_variable_lower_bound_index (mods lp)) \<longrightarrow>
              (\<forall>k < length (save_relaxed_semi_variable_lower_bound_index (mods lp)).
                 col_lower lp' ! nat (save_relaxed_semi_variable_lower_bound_index (mods lp) ! k)
                   = save_relaxed_semi_variable_lower_bound_value (mods lp) ! k)) \<and>
           (distinct (save_tightened_semi_variable_upper_bound_index (mods lp)) \<longrightarrow>
              (\<forall>k < length (save_tightened_semi_variable_upper_bound_index (mods lp)).
                 col_upper lp' ! nat (save_tightened_semi_variable_upper_bound_index (mods lp) ! k)
                   = save_tightened_semi_variable_upper_bound_value (mods lp) ! k))"
proof (intro exI conjI impI allI)
  show "unapplyMods lp = Inr (restore_spec lp)"
    using assms by (rule unapplyMods_eq_restore_spec)
  show "restore_spec lp = restore_spec lp" ..
  show "all_logs_empty (mods (restore_spec lp))"
    by (simp add: mods_restore_spec all_logs_empty_mods_clear)
  show "isClear (mods (restore_spec lp))"
    by (simp add: mods_restore_spec isClear_mods_clear)
qed (use assms in \<open>simp_all add: restore_spec_non_semi restore_spec_inconsistent_type
      restore_spec_inconsistent_lower restore_spec_inconsistent_upper
      restore_spec_relaxed_lower restore_spec_tightened_upper\<close>)

theorem unapplyMods_restores_journal_witness:
  "\<exists>lp'. unapplyMods journal_example = Inr lp' \<and>
         integrality lp' = [kSemiContinuous, kSemiInteger, kSemiContinuous, kSemiInteger] \<and>
         col_lower lp' = [0, 0, 3, 7] \<and> col_upper lp' = [20, 10, 5, 9] \<and>
         mods lp' = empty_mods \<and> isClear (mods lp')"
proof -
  have pre: "restore_pre journal_example"
    by (simp add: restore_pre_def journal_example_def empty_lp_def in_range_def semi_at_def Let_def)
  from unapplyMods_restores_journal [OF pre]
  have "unapplyMods journal_example = Inr (restore_spec journal_example)"
    and "isClear (mods (restore_spec journal_example))" by simp_all
  then show ?thesis
    by (simp add: restore_spec_def journal_example_def empty_lp_def mods_clear_def empty_mods_def
                  Let_def)
qed

section \<open>Synthetic column names\<close>

lemma to_string_small: "to_string 0 = ''0''" "to_string 1 = ''1''" "to_string 2 = ''2''"
  by (simp_all add: to_string_def to_string_nat.simps)

lemma addColNames_enters_loop:
  assumes "num_col lp \<noteq> 0" and "num_col lp \<le> int (length (col_names lp))"
    and "hash_size (col_hash lp) \<noteq> 0"
  shows "addColNames kHashIsDuplicate lp [] num_new_col =
           addColNames_loop (int (length (col_names lp))) num_new_col (num_col lp) lp"
  using assms by (simp add: addColNames_def Let_def bindE_def)

lemma addColNames_forms_hash_then_enters_loop:
  assumes "num_col lp \<noteq> 0" and "num_col lp \<le> int (length (col_names lp))"
    and "hash_size (col_hash lp) = 0"
    and "form kHashIsDuplicate (col_hash lp) (col_names lp) = Inr h"
  shows "addColNames kHashIsDuplicate lp [] num_new_col =
           addColNames_loop (int (length (col_names lp))) num_new_col (num_col lp)
             (lp\<lparr>col_hash := h\<rparr>)"
  using assms by (simp add: addColNames_def Let_def bindE_def)

text \<open>
  C6: at any pass of the loop of \<open>addColNames\<close>, if the synthesized name
  \<open>col_ekk_<counter>\<close> is already a key of the hash, or the pre-sized slot of the index
  holds a non-blank name, the loop ends there and the call returns normally: the hash
  is cleared, the name sequence is the one that pass found (no name is written for this
  index or a later one), and only the counter has advanced.
\<close>

theorem addColNames_collision_aborts_batch:
  assumes "iCol < num_col lp + num_new_col"
    and "name2index (col_hash lp) (''col_ekk_'' @ to_string (new_col_name_ix lp)) \<noteq> None \<or>
         (col_names_size \<noteq> num_col lp \<and> iCol < col_names_size \<and>
          0 \<le> iCol \<and> iCol < int (length (col_names lp)) \<and> col_names lp ! nat iCol \<noteq> [])"
  shows "\<exists>lp'. addColNames_loop col_names_size num_new_col iCol lp = Inr lp' \<and>
           lp' = lp\<lparr>new_col_name_ix := new_col_name_ix lp + 1,
                      col_hash := hash_clear (col_hash lp)\<rparr> \<and>
           name2index (col_hash lp') = Map.empty \<and>
           col_names lp' = col_names lp"
proof -
  let ?name = "''col_ekk_'' @ to_string (new_col_name_ix lp)"
  let ?lp1 = "lp\<lparr>new_col_name_ix := new_col_name_ix lp + 1\<rparr>"
  have "addColNames_write col_names_size iCol ?name ?lp1 = Inr (?lp1, False)"
  proof (cases "name2index (col_hash lp) ?name = None")
    case False
    then show ?thesis
      by (auto simp: addColNames_write_def)
  next
    case True
    with assms(2) show ?thesis
      by (simp add: addColNames_write_def bindE_def vec_get_def)
  qed
  with assms(1) have "addColNames_loop col_names_size num_new_col iCol lp =
      Inr (?lp1\<lparr>col_hash := hash_clear (col_hash ?lp1)\<rparr>)"
    by (subst addColNames_loop.simps) simp
  then show ?thesis
    by (simp add: hash_clear_def)
qed

theorem addColNames_collision_aborts_batch_witness:
  "addColNames_loop 2 2 2 collision_example =
     Inr (collision_example\<lparr>new_col_name_ix := 1, col_hash := empty_hash\<rparr>) \<and>
   addColNames (- 1) collision_example [] 2 =
     Inr (collision_example\<lparr>new_col_name_ix := 1, col_hash := empty_hash\<rparr>)"
proof -
  have "addColNames_loop 2 2 2 collision_example =
     Inr (collision_example\<lparr>new_col_name_ix := 1, col_hash := empty_hash\<rparr>)"
    using addColNames_collision_aborts_batch [of 2 collision_example 2 2]
    by (simp add: collision_example_def empty_lp_def to_string_small hash_clear_def empty_hash_def)
  moreover have "addColNames (- 1) collision_example [] 2 = addColNames_loop 2 2 2 collision_example"
    using addColNames_enters_loop [of collision_example "- 1" 2]
    by (simp add: collision_example_def empty_lp_def hash_size_def)
  ultimately show ?thesis by simp
qed

lemma addColNames_late_collision:
  "addColNames (- 1) late_collision_example [] 3 =
     Inr (late_collision_example
            \<lparr> new_col_name_ix := 2, col_names := [''a'', ''col_ekk_1'', ''col_ekk_0''],
              col_hash := empty_hash \<rparr>)"
  by (simp add: addColNames_def late_collision_example_def empty_lp_def addColNames_loop.simps
                addColNames_write_def addColNames_record_def to_string_small
                form_def for_loop.simps form_body_def bindE_def vec_get_def vec_set_def
                emplace_def hash_size_def hash_clear_def empty_hash_def Let_def)

lemma addColNames_spec_example:
  "addColNames (- 1) (empty_lp\<lparr>num_col := 2, col_names := [''a'', ''b'']\<rparr>) [] 2 =
     Inr (empty_lp\<lparr>num_col := 2, new_col_name_ix := 2,
                   col_names := [''a'', ''b'', ''col_ekk_0'', ''col_ekk_1''],
                   col_hash := \<lparr>name2index =
                     [''a'' \<mapsto> 0, ''b'' \<mapsto> 1, ''col_ekk_0'' \<mapsto> 2, ''col_ekk_1'' \<mapsto> 3]\<rparr>\<rparr>)"
  by (simp add: addColNames_def empty_lp_def addColNames_loop.simps
                addColNames_write_def addColNames_record_def to_string_small
                form_def for_loop.simps form_body_def bindE_def vec_get_def vec_set_def
                emplace_def hash_size_def hash_clear_def Let_def)

section \<open>The mapping \<open>form\<close> builds when its assertion holds\<close>

text \<open>
  Whenever \<open>form\<close> returns, the mapping is the intended one for the whole sequence:
  absent names are absent, names read once map to their index, repeated names map to the
  sentinel. So the assertion is the only way \<open>form\<close> departs from it.
\<close>

lemma for_loop_invariant:
  assumes "for_loop i n body s = Inr s'" and "i \<le> n" and "I i s"
    and "\<And>k t t'. i \<le> k \<Longrightarrow> k < n \<Longrightarrow> I k t \<Longrightarrow> body k t = Inr t' \<Longrightarrow> I (k + 1) t'"
  shows "I n s'"
  using assms
proof (induction i n body s rule: for_loop.induct)
  case (1 i n body s)
  show ?case
  proof (cases "i < n")
    case False
    with "1.prems" show ?thesis
      by (simp add: for_loop.simps)
  next
    case True
    with "1.prems"(1) obtain t where t: "body i s = Inr t" and rest: "for_loop (i + 1) n body t = Inr s'"
      by (subst (asm) for_loop.simps) (auto split: sum.splits)
    have next_inv: "I (i + 1) t"
      by (rule "1.prems"(4) [OF order_refl True "1.prems"(3) t])
    show ?thesis
    proof (rule "1.IH" [OF True t rest])
      show "i + 1 \<le> n" using True by simp
      show "I (i + 1) t" by (rule next_inv)
      show "I (k + 1) u'" if "i + 1 \<le> k" "k < n" "I k u" "body k u = Inr u'" for k u u'
      proof (rule "1.prems"(4) [OF _ that(2,3,4)])
        show "i \<le> k" using that(1) by simp
      qed
    qed
  qed
qed

lemma mapping_of_prefix_absent:
  assumes "mapping_of_prefix s name k m" and "\<forall>i<k. name ! i \<noteq> key"
  shows "m key = None"
proof -
  from assms(1) have "(\<forall>i<k. name ! i \<noteq> key) \<longrightarrow> m key = None"
    unfolding mapping_of_prefix_def by (elim allE [of _ key] conjE)
  with assms(2) show ?thesis by simp
qed

lemma mapping_of_prefix_once:
  assumes "mapping_of_prefix s name k m" and "i < k" and "name ! i = key"
    and "\<forall>j<k. name ! j = key \<longrightarrow> j = i"
  shows "m key = Some (int i)"
proof -
  from assms(1) have all:
    "\<forall>i<k. name ! i = key \<longrightarrow> (\<forall>j<k. name ! j = key \<longrightarrow> j = i) \<longrightarrow> m key = Some (int i)"
    unfolding mapping_of_prefix_def by (elim allE [of _ key] conjE)
  show ?thesis
    by (rule all [THEN spec, THEN mp, OF assms(2), THEN mp, OF assms(3), THEN mp, OF assms(4)])
qed

lemma mapping_of_prefix_twice:
  assumes "mapping_of_prefix s name k m" and "i < j" and "j < k"
    and "name ! i = key" and "name ! j = key"
  shows "m key = Some s"
proof -
  from assms(1) have all:
    "\<forall>i j. i < j \<longrightarrow> j < k \<longrightarrow> name ! i = key \<longrightarrow> name ! j = key \<longrightarrow> m key = Some s"
    unfolding mapping_of_prefix_def by (elim allE [of _ key] conjE)
  show ?thesis
    by (rule all [rule_format, OF assms(2) assms(3) assms(4) assms(5)])
qed

lemma mapping_of_prefix_present:
  assumes "mapping_of_prefix s name k m" and "i < k" and "name ! i = key"
  shows "m key \<noteq> None"
proof (cases "\<forall>j<k. name ! j = key \<longrightarrow> j = i")
  case True
  with assms have "m key = Some (int i)" by (rule mapping_of_prefix_once)
  then show ?thesis by simp
next
  case False
  then obtain j where j: "j < k" "name ! j = key" "j \<noteq> i" by blast
  show ?thesis
  proof (cases "i < j")
    case True
    with assms j have "m key = Some s" by (intro mapping_of_prefix_twice [of s name k m i j key])
    then show ?thesis by simp
  next
    case False
    with j have "j < i" by simp
    with assms j have "m key = Some s" by (intro mapping_of_prefix_twice [of s name k m j i key])
    then show ?thesis by simp
  qed
qed

lemma mapping_of_prefix_fresh:
  assumes "mapping_of_prefix s name k m" and "m (name ! k) = None"
  shows "mapping_of_prefix s name (Suc k) (m(name ! k \<mapsto> int k))"
proof -
  let ?key0 = "name ! k"
  have fresh: "name ! i \<noteq> ?key0" if "i < k" for i
  proof
    assume "name ! i = ?key0"
    with assms(1) that have "m ?key0 \<noteq> None" by (rule mapping_of_prefix_present)
    with assms(2) show False by contradiction
  qed
  show ?thesis
    unfolding mapping_of_prefix_def
  proof (intro allI conjI impI)
    fix key
    assume none: "\<forall>i<Suc k. name ! i \<noteq> key"
    then have ne: "key \<noteq> ?key0" by auto
    from none have "\<forall>i<k. name ! i \<noteq> key" by auto
    with assms(1) have "m key = None" by (rule mapping_of_prefix_absent)
    with ne show "(m(?key0 \<mapsto> int k)) key = None" by simp
  next
    fix key i
    assume i: "i < Suc k" "name ! i = key" "\<forall>j<Suc k. name ! j = key \<longrightarrow> j = i"
    show "(m(?key0 \<mapsto> int k)) key = Some (int i)"
    proof (cases "key = ?key0")
      case True
      from i(3) have "name ! k = key \<longrightarrow> k = i" by blast
      with True have "k = i" by simp
      with True show ?thesis by simp
    next
      case False
      with i(1,2) have ik: "i < k" by (cases "i = k") auto
      from i(3) have uniq: "\<forall>j<k. name ! j = key \<longrightarrow> j = i" by auto
      from assms(1) ik i(2) uniq have "m key = Some (int i)" by (rule mapping_of_prefix_once)
      with False show ?thesis by simp
    qed
  next
    fix key i j
    assume ij: "i < j" "j < Suc k" "name ! i = key" "name ! j = key"
    then have "i < k" by simp
    from fresh [OF this] ij(3) have ne: "key \<noteq> ?key0" by auto
    with ij(2,4) have jk: "j < k" by (cases "j = k") auto
    from assms(1) ij(1) jk ij(3,4) have "m key = Some s" by (rule mapping_of_prefix_twice)
    with ne show "(m(?key0 \<mapsto> int k)) key = Some s" by simp
  qed
qed

lemma mapping_of_prefix_repeated:
  assumes "mapping_of_prefix s name k m" and "m (name ! k) \<noteq> None"
  shows "mapping_of_prefix s name (Suc k) (m(name ! k \<mapsto> s))"
proof -
  let ?key0 = "name ! k"
  have "\<not> (\<forall>i<k. name ! i \<noteq> ?key0)"
  proof
    assume "\<forall>i<k. name ! i \<noteq> ?key0"
    with assms(1) have "m ?key0 = None" by (rule mapping_of_prefix_absent)
    with assms(2) show False by contradiction
  qed
  then obtain i0 where i0: "i0 < k" "name ! i0 = ?key0"
    by auto
  show ?thesis
    unfolding mapping_of_prefix_def
  proof (intro allI conjI impI)
    fix key
    assume none: "\<forall>i<Suc k. name ! i \<noteq> key"
    then have ne: "key \<noteq> ?key0" by auto
    from none have "\<forall>i<k. name ! i \<noteq> key" by auto
    with assms(1) have "m key = None" by (rule mapping_of_prefix_absent)
    with ne show "(m(?key0 \<mapsto> s)) key = None" by simp
  next
    fix key i
    assume i: "i < Suc k" "name ! i = key" "\<forall>j<Suc k. name ! j = key \<longrightarrow> j = i"
    have ne: "key \<noteq> ?key0"
    proof
      assume eq: "key = ?key0"
      from i(3) have "name ! k = key \<longrightarrow> k = i" by blast
      with eq have "k = i" by simp
      moreover from i(3) i0(1) have "name ! i0 = key \<longrightarrow> i0 = i" by auto
      with eq i0(2) have "i0 = i" by simp
      ultimately show False using i0(1) by simp
    qed
    with i(1,2) have ik: "i < k" by (cases "i = k") auto
    from i(3) have uniq: "\<forall>j<k. name ! j = key \<longrightarrow> j = i" by auto
    from assms(1) ik i(2) uniq have "m key = Some (int i)" by (rule mapping_of_prefix_once)
    with ne show "(m(?key0 \<mapsto> s)) key = Some (int i)" by simp
  next
    fix key i j
    assume ij: "i < j" "j < Suc k" "name ! i = key" "name ! j = key"
    show "(m(?key0 \<mapsto> s)) key = Some s"
    proof (cases "key = ?key0")
      case True
      then show ?thesis by simp
    next
      case False
      with ij(2,4) have jk: "j < k" by (cases "j = k") auto
      from assms(1) ij(1) jk ij(3,4) have "m key = Some s" by (rule mapping_of_prefix_twice)
      with False show ?thesis by simp
    qed
  qed
qed

lemma form_body_invariant:
  assumes "0 \<le> index" and "index < int (length name)"
    and "mapping_of_prefix s name (nat index) (name2index h)"
    and "form_body s name index h = Inr h'"
  shows "mapping_of_prefix s name (nat (index + 1)) (name2index h')"
proof -
  let ?key = "name ! nat index"
  have suc: "nat (index + 1) = Suc (nat index)"
    using assms(1) by simp
  have get: "vec_get name index = Inr ?key"
    using assms(1,2) by (simp add: vec_get_def)
  show ?thesis
  proof (cases "name2index h ?key = None")
    case True
    with assms(4) get have "name2index h' = (name2index h)(?key \<mapsto> index)"
      by (auto simp: form_body_def bindE_def emplace_def Let_def)
    with mapping_of_prefix_fresh [OF assms(3) True] assms(1) show ?thesis
      by (simp add: suc)
  next
    case False
    with assms(4) get have "name2index h' = (name2index h)(?key \<mapsto> s)"
      by (auto simp: form_body_def bindE_def emplace_def Let_def split: option.splits if_splits)
    with mapping_of_prefix_repeated [OF assms(3) False] show ?thesis
      by (simp add: suc)
  qed
qed

lemma form_mapping_when_it_returns:
  assumes "form s h name = Inr h'"
  shows "mapping_of_prefix s name (length name) (name2index h')"
proof -
  have loop: "for_loop 0 (int (length name)) (form_body s name) (hash_clear h) = Inr h'"
    using assms by (simp add: form_def Let_def)
  have "mapping_of_prefix s name (nat (int (length name))) (name2index h')"
  proof (rule for_loop_invariant [OF loop, where I = "\<lambda>k t. mapping_of_prefix s name (nat k) (name2index t)"])
    show "0 \<le> int (length name)" by simp
    show "mapping_of_prefix s name (nat 0) (name2index (hash_clear h))"
      by (simp add: mapping_of_prefix_def hash_clear_def)
    show "mapping_of_prefix s name (nat (k + 1)) (name2index t')"
      if "0 \<le> k" "k < int (length name)" "mapping_of_prefix s name (nat k) (name2index t)"
        "form_body s name k t = Inr t'" for k t t'
      using that by (rule form_body_invariant)
  qed
  then show ?thesis by simp
qed

end
